theory Spec2Isabelle
  imports Complex_Main "HOL-Library.Log_Nat"
begin

section \<open>SimpleTimer: data model\<close>

text \<open>
  The embedding follows \<^verbatim>\<open>src/index.ts\<close>. A \<^verbatim>\<open>TimerInstance\<close> is a mutable object that is
  shared by reference (the registry, the handle given to the caller and the closure of the
  tick loop all point to the same object), so timers live in an explicit store and are
  named by their reference, the index in the store. The five closures of a \<^verbatim>\<open>TimerInstance\<close>
  (\<^verbatim>\<open>Start: () => this.Start(timer)\<close> and so on) call the methods on the timer itself; they
  are the methods below applied to the timer's reference and are not fields of the record.
  The folder and the link of the constructor (lines 37 to 43) play no part in the timers and
  are left out.

  Numbers are modelled as the source has them, as IEEE 754 double-precision values: see the
  next section.

  A \<^verbatim>\<open>BindableEvent\<close> is modelled by a flag: \<open>True\<close> from \<^verbatim>\<open>new Instance("BindableEvent")\<close> until
  \<^verbatim>\<open>Destroy()\<close> is called on it (which disconnects its subscribers). The subscribers are not
  part of the program: a \<^verbatim>\<open>Fire\<close> is recorded in the trace of the world, and the methods are
  called from outside, between the steps of the program.
\<close>

type_synonym ref = nat
type_synonym thread = nat

subsection \<open>Numbers\<close>

text \<open>
  A \<^verbatim>\<open>number\<close> of the source is an IEEE 754 binary64 value. A finite one is modelled by the
  rational number it denotes (the two zeros are one value); the infinities and NaN are values
  of their own. The program compares numbers with zero (lines 179 and 188), tests one for
  truth (line 55) and subtracts (line 182). The difference of two finite numbers is the exact
  difference rounded to the nearest binary64 value, ties to even: \<open>ilog2 x\<close> is \<open>\<lfloor>log\<^sub>2 x\<rfloor>\<close>, the
  exponent of the last place is that minus 52 (and at least \<open>-1074\<close>, the subnormal range),
  and a result of \<open>2\<^sup>1\<^sup>0\<^sup>2\<^sup>4\<close> or more (\<open>1024 \<le> \<lfloor>log\<^sub>2 y\<rfloor>\<close>) is an infinity.
\<close>

datatype number = Finite rat | PosInfinity | NegInfinity | NaN

definition pow2 :: "int \<Rightarrow> rat" where
  "pow2 e = (if 0 \<le> e then 2 ^ nat e else 1 / 2 ^ nat (- e))"

definition ilog2 :: "rat \<Rightarrow> int" where
  "ilog2 x = (if 1 \<le> x then bitlen \<lfloor>x\<rfloor> - 1 else - bitlen (\<lceil>1 / x\<rceil> - 1))"

definition round_even :: "rat \<Rightarrow> int" where
  "round_even y =
     (let f = \<lfloor>y\<rfloor>; d = y - of_int f
      in if d < 1 / 2 then f else if 1 / 2 < d then f + 1 else if even f then f else f + 1)"

definition round_double :: "rat \<Rightarrow> number" where
  "round_double x =
     (if x = 0 then Finite 0
      else
        let e = max (ilog2 \<bar>x\<bar> - 52) (- 1074);
            y = of_int (round_even (\<bar>x\<bar> / pow2 e)) * pow2 e
        in if 1024 \<le> ilog2 y then (if 0 < x then PosInfinity else NegInfinity)
           else Finite (if 0 < x then y else - y))"

text \<open>\<^verbatim>\<open>x - y\<close>\<close>

definition number_sub :: "number \<Rightarrow> number \<Rightarrow> number" where
  "number_sub x y =
     (case x of
        NaN \<Rightarrow> NaN
      | Finite a \<Rightarrow>
          (case y of
             NaN \<Rightarrow> NaN
           | Finite b \<Rightarrow> round_double (a - b)
           | PosInfinity \<Rightarrow> NegInfinity
           | NegInfinity \<Rightarrow> PosInfinity)
      | PosInfinity \<Rightarrow> (case y of NaN \<Rightarrow> NaN | PosInfinity \<Rightarrow> NaN | _ \<Rightarrow> PosInfinity)
      | NegInfinity \<Rightarrow> (case y of NaN \<Rightarrow> NaN | NegInfinity \<Rightarrow> NaN | _ \<Rightarrow> NegInfinity))"

text \<open>\<^verbatim>\<open>x > 0\<close> and \<^verbatim>\<open>x <= 0\<close>; both are false of NaN.\<close>

definition gt_zero :: "number \<Rightarrow> bool" where
  "gt_zero x = (case x of Finite a \<Rightarrow> 0 < a | PosInfinity \<Rightarrow> True | _ \<Rightarrow> False)"

definition le_zero :: "number \<Rightarrow> bool" where
  "le_zero x = (case x of Finite a \<Rightarrow> a \<le> 0 | NegInfinity \<Rightarrow> True | _ \<Rightarrow> False)"

text \<open>The numbers that are false in a condition: zero and NaN.\<close>

definition falsy :: "number \<Rightarrow> bool" where
  "falsy x = (case x of Finite a \<Rightarrow> a = 0 | NaN \<Rightarrow> True | _ \<Rightarrow> False)"

subsection \<open>Timers, threads and the world\<close>

datatype TimerStatus = Started | Completed | Paused | Running | Stopped

record TimerInstance =
  Name :: string
  Duration :: number
  Tick :: number
  RemainingTime :: number
  AutoDestroy :: bool
  Status :: TimerStatus
  completed :: bool
  statusChanged :: bool
  onTick :: bool
  timerThread :: "thread option"

text \<open>The argument of \<^verbatim>\<open>CreateTimer\<close>; \<^verbatim>\<open>Tick\<close> and \<^verbatim>\<open>AutoDestroy\<close> are optional.\<close>

record timerData =
  d_Name :: string
  d_Duration :: number
  d_Tick :: "number option"
  d_AutoDestroy :: "bool option"

datatype error = Error string

text \<open>
  What the host keeps for each thread made by \<^verbatim>\<open>task.spawn\<close>:
  \<^item> \<open>Executing\<close>: the thread is the one running now;
  \<^item> \<open>Waiting r\<close>: suspended in \<^verbatim>\<open>task.wait(timer.Tick)\<close> (line 180) inside \<^verbatim>\<open>run\<close> of timer \<open>r\<close>;
    the scheduler resumes it when the wait has elapsed;
  \<^item> \<open>Yielded\<close>: suspended in \<^verbatim>\<open>coroutine.yield\<close> (line 137); no code of the program resumes it;
  \<^item> \<open>Cancelled\<close>: removed from the scheduler by \<^verbatim>\<open>task.cancel\<close>;
  \<^item> \<open>Dead\<close>: \<^verbatim>\<open>run\<close> has returned.
\<close>

datatype thread_state = Executing | Waiting ref | Yielded | Cancelled | Dead

text \<open>
  The trace records, in program order, what the program hands to the host: a \<^verbatim>\<open>Fire\<close> on one
  of the three channels (\<open>StatusChanged\<close> carries the status a subscriber reads from the timer
  at that moment), a \<^verbatim>\<open>task.cancel\<close>, and a \<^verbatim>\<open>print\<close>.
\<close>

datatype host_event =
    OnTick ref number
  | StatusChanged ref TimerStatus
  | OnCompleted ref
  | TaskCancel thread
  | Print string

record world =
  IsServer :: bool
  heap :: "TimerInstance list"
  Timers :: "string \<rightharpoonup> ref"
  threads :: "thread_state list"
  trace :: "host_event list"

text \<open>Whether a call ran to its end, or suspended the coroutine that made it.\<close>

datatype outcome = Returned | Suspended

section \<open>Host primitives\<close>

definition get :: "ref \<Rightarrow> world \<Rightarrow> TimerInstance" where
  "get r w = heap w ! r"

definition upd :: "ref \<Rightarrow> (TimerInstance \<Rightarrow> TimerInstance) \<Rightarrow> world \<Rightarrow> world" where
  "upd r f w = w\<lparr>heap := (heap w)[r := f (heap w ! r)]\<rparr>"

definition emit :: "host_event \<Rightarrow> world \<Rightarrow> world" where
  "emit e w = w\<lparr>trace := trace w @ [e]\<rparr>"

text \<open>\<^verbatim>\<open>timer.onTick.Fire(timer.RemainingTime)\<close>\<close>

definition Fire_onTick :: "ref \<Rightarrow> world \<Rightarrow> world" where
  "Fire_onTick r w = emit (OnTick r (RemainingTime (get r w))) w"

text \<open>\<^verbatim>\<open>timer.statusChanged.Fire()\<close>\<close>

definition Fire_statusChanged :: "ref \<Rightarrow> world \<Rightarrow> world" where
  "Fire_statusChanged r w = emit (StatusChanged r (Status (get r w))) w"

text \<open>\<^verbatim>\<open>timer.completed.Fire()\<close>\<close>

definition Fire_completed :: "ref \<Rightarrow> world \<Rightarrow> world" where
  "Fire_completed r w = emit (OnCompleted r) w"

definition set_thread :: "thread \<Rightarrow> thread_state \<Rightarrow> world \<Rightarrow> world" where
  "set_thread th s w = w\<lparr>threads := (threads w)[th := s]\<rparr>"

text \<open>
  \<^verbatim>\<open>task.cancel(thread)\<close>: a suspended thread is taken from the scheduler and never runs
  again; a finished one stays finished.
\<close>

definition task_cancel :: "thread \<Rightarrow> world \<Rightarrow> world" where
  "task_cancel th w =
     emit (TaskCancel th)
       (set_thread th
          (case threads w ! th of
             Waiting r \<Rightarrow> Cancelled
           | Yielded \<Rightarrow> Cancelled
           | s \<Rightarrow> s) w)"

text \<open>A new object gets the next free reference.\<close>

definition new_object :: "TimerInstance \<Rightarrow> world \<Rightarrow> ref \<times> world" where
  "new_object t w = (length (heap w), w\<lparr>heap := heap w @ [t]\<rparr>)"

text \<open>\<^verbatim>\<open>Timers.set(name, timer)\<close> and \<^verbatim>\<open>Timers.delete(name)\<close> on the module's \<^verbatim>\<open>Map\<close>.\<close>

definition Timers_set :: "string \<Rightarrow> ref \<Rightarrow> world \<Rightarrow> world" where
  "Timers_set n r w = w\<lparr>Timers := (Timers w)(n \<mapsto> r)\<rparr>"

definition Timers_delete :: "string \<Rightarrow> world \<Rightarrow> world" where
  "Timers_delete n w = w\<lparr>Timers := (Timers w)(n := None)\<rparr>"

text \<open>The two uses of JavaScript's \<^verbatim>\<open>||\<close> in \<^verbatim>\<open>CreateTimer\<close>: \<^verbatim>\<open>undefined\<close>, \<^verbatim>\<open>0\<close>, NaN and
  \<^verbatim>\<open>false\<close> are falsy, and a falsy left operand gives the right operand.\<close>

definition or_number :: "number option \<Rightarrow> number \<Rightarrow> number" where
  "or_number x d = (case x of None \<Rightarrow> d | Some v \<Rightarrow> if falsy v then d else v)"

definition or_boolean :: "bool option \<Rightarrow> bool \<Rightarrow> bool" where
  "or_boolean x d = (case x of None \<Rightarrow> d | Some v \<Rightarrow> if v then v else d)"

section \<open>The methods of \<^verbatim>\<open>SimpleTimer\<close>\<close>

text \<open>\<^verbatim>\<open>CreateTimer\<close>, lines 46 to 82. \<^verbatim>\<open>error(...)\<close> raises before anything is built.\<close>

definition CreateTimer :: "timerData \<Rightarrow> world \<Rightarrow> (error + ref) \<times> world" where
  "CreateTimer timerData w =
     (if \<not> IsServer w then (Inl (Error ''Timers have to be created on the server''), w)
      else
        let timer = \<lparr> Name = d_Name timerData,
                      Duration = d_Duration timerData,
                      Tick = or_number (d_Tick timerData) (Finite 1),
                      RemainingTime = d_Duration timerData,
                      AutoDestroy = or_boolean (d_AutoDestroy timerData) True,
                      Status = Stopped,
                      completed = True,
                      statusChanged = True,
                      onTick = True,
                      timerThread = None \<rparr>;
            (r, w1) = new_object timer w
        in (Inr r, Timers_set (d_Name timerData) r w1))"

text \<open>
  \<^verbatim>\<open>Destroy\<close>, lines 128 to 145. Only \<^verbatim>\<open>completed\<close> and \<^verbatim>\<open>statusChanged\<close> are destroyed.
  When \<^verbatim>\<open>timer.timerThread\<close> is set, line 137 runs \<^verbatim>\<open>coroutine.yield(timer.timerThread)\<close>:
  \<^verbatim>\<open>coroutine.yield\<close> suspends the coroutine that calls it (its arguments are values handed
  to whoever resumed that coroutine, not the coroutine to suspend), so the caller of
  \<^verbatim>\<open>Destroy\<close> stops there. No code of the program resumes a coroutine (the scheduler only
  resumes threads that wait in \<^verbatim>\<open>task.wait\<close>), so lines 138 to 144 are not reached: the call
  ends as \<open>Suspended\<close>. The caller is the tick thread itself when \<^verbatim>\<open>run\<close> calls \<^verbatim>\<open>Destroy\<close>,
  and a thread of some script otherwise.
\<close>

definition destroyed_message :: "string \<Rightarrow> string" where
  "destroyed_message n = ''Timer '' @ [CHR 0x22] @ n @ [CHR 0x22] @ '' has been destroyed.''"

definition Destroy :: "ref \<Rightarrow> world \<Rightarrow> outcome \<times> world" where
  "Destroy r w =
     (let w1 = upd r (\<lambda>t. t\<lparr>Status := Stopped\<rparr>) w;
          w2 = upd r (\<lambda>t. t\<lparr>completed := False\<rparr>) w1;
          w3 = upd r (\<lambda>t. t\<lparr>statusChanged := False\<rparr>) w2
      in case timerThread (get r w3) of
           Some th \<Rightarrow> (Suspended, w3)
         | None \<Rightarrow>
             (Returned,
              emit (Print (destroyed_message (Name (get r w3))))
                (Timers_delete (Name (get r w3)) w3)))"

text \<open>
  \<^verbatim>\<open>run\<close>, lines 178 to 199, cut at its one suspension point. \<open>run_exit\<close> is the code after
  the loop (lines 187 to 198) run by thread \<open>th\<close>; \<open>run_loop\<close> is the loop test of line 179,
  which either suspends the thread in \<^verbatim>\<open>task.wait\<close> or leaves the loop; \<open>Wake\<close> is what the
  thread does when the scheduler resumes it from \<^verbatim>\<open>task.wait\<close>: lines 181 to 184, then the
  loop test again.
\<close>

definition run_exit :: "thread \<Rightarrow> ref \<Rightarrow> world \<Rightarrow> world" where
  "run_exit th r w =
     (if le_zero (RemainingTime (get r w)) \<and> Status (get r w) = Running then
        let w1 = upd r (\<lambda>t. t\<lparr>Status := Completed\<rparr>) w;
            w2 = Fire_completed r w1;
            w3 = Fire_statusChanged r w2;
            w4 = Fire_onTick r w3
        in if AutoDestroy (get r w4) then
             let (out, w5) = Destroy r w4
             in set_thread th (case out of Returned \<Rightarrow> Dead | Suspended \<Rightarrow> Yielded) w5
           else set_thread th Dead w4
      else set_thread th Dead w)"

definition run_loop :: "thread \<Rightarrow> ref \<Rightarrow> world \<Rightarrow> world" where
  "run_loop th r w =
     (if gt_zero (RemainingTime (get r w)) \<and> Status (get r w) = Running
      then set_thread th (Waiting r) w
      else run_exit th r w)"

definition Wake :: "thread \<Rightarrow> world \<Rightarrow> world" where
  "Wake th w =
     (if th < length (threads w) then
        (case threads w ! th of
           Waiting r \<Rightarrow>
             let w0 = set_thread th Executing w;
                 w1 = Fire_onTick r w0;
                 w2 = upd r (\<lambda>t. t\<lparr>RemainingTime := number_sub (RemainingTime t) (Tick t)\<rparr>) w1
             in if Status (get r w2) \<noteq> Running then run_exit th r w2
                else run_loop th r w2
         | _ \<Rightarrow> w)
      else w)"

text \<open>
  \<^verbatim>\<open>task.spawn(() => this.run(timer))\<close>: the new thread runs at once, up to its first
  suspension or its end, and then \<^verbatim>\<open>task.spawn\<close> returns the thread.
\<close>

definition task_spawn_run :: "ref \<Rightarrow> world \<Rightarrow> thread \<times> world" where
  "task_spawn_run r w =
     (let th = length (threads w)
      in (th, run_loop th r (w\<lparr>threads := threads w @ [Executing]\<rparr>)))"

text \<open>\<^verbatim>\<open>Start\<close>, lines 85 to 90.\<close>

definition Start :: "ref \<Rightarrow> world \<Rightarrow> world" where
  "Start r w =
     (if Status (get r w) = Running then w
      else
        let w1 = upd r (\<lambda>t. t\<lparr>Status := Running\<rparr>) w;
            (th, w2) = task_spawn_run r w1;
            w3 = upd r (\<lambda>t. t\<lparr>timerThread := Some th\<rparr>) w2
        in Fire_statusChanged r w3)"

text \<open>\<^verbatim>\<open>Pause\<close>, lines 93 to 103.\<close>

definition Pause :: "ref \<Rightarrow> world \<Rightarrow> world" where
  "Pause r w =
     (if Status (get r w) \<noteq> Running then w
      else
        let w1 = upd r (\<lambda>t. t\<lparr>Status := Paused\<rparr>) w;
            w2 = Fire_statusChanged r w1
        in case timerThread (get r w2) of
             Some th \<Rightarrow> upd r (\<lambda>t. t\<lparr>timerThread := None\<rparr>) (task_cancel th w2)
           | None \<Rightarrow> w2)"

text \<open>\<^verbatim>\<open>Resume\<close>, lines 106 to 111.\<close>

definition Resume :: "ref \<Rightarrow> world \<Rightarrow> world" where
  "Resume r w =
     (if Status (get r w) \<noteq> Paused then w
      else
        let w1 = upd r (\<lambda>t. t\<lparr>Status := Running\<rparr>) w;
            (th, w2) = task_spawn_run r w1;
            w3 = upd r (\<lambda>t. t\<lparr>timerThread := Some th\<rparr>) w2
        in Fire_statusChanged r w3)"

text \<open>\<^verbatim>\<open>Stop\<close>, lines 114 to 125.\<close>

definition Stop :: "ref \<Rightarrow> world \<Rightarrow> world" where
  "Stop r w =
     (if Status (get r w) = Stopped then w
      else
        let w1 = upd r (\<lambda>t. t\<lparr>Status := Stopped\<rparr>) w;
            w2 = upd r (\<lambda>t. t\<lparr>RemainingTime := Duration t\<rparr>) w1;
            w3 = Fire_statusChanged r w2
        in case timerThread (get r w3) of
             Some th \<Rightarrow> upd r (\<lambda>t. t\<lparr>timerThread := None\<rparr>) (task_cancel th w3)
           | None \<Rightarrow> w3)"

text \<open>\<^verbatim>\<open>Copy\<close>, lines 147 to 175. The copy is a new object; it is not put in \<^verbatim>\<open>Timers\<close>.\<close>

definition Copy :: "ref \<Rightarrow> world \<Rightarrow> ref \<times> world" where
  "Copy r w =
     (let timer = get r w;
          copiedTimer = \<lparr> Name = Name timer @ ''_copy'',
                            Duration = Duration timer,
                            Tick = Tick timer,
                            RemainingTime = RemainingTime timer,
                            AutoDestroy = AutoDestroy timer,
                            Status = Status timer,
                            completed = True,
                            statusChanged = True,
                            onTick = True,
                            timerThread = None \<rparr>
      in new_object copiedTimer w)"

section \<open>Runs of the program\<close>

text \<open>
  What can happen to a world: a caller in some script invokes a method on a timer it holds,
  or the scheduler resumes a thread whose wait has elapsed. A caller can only hold a
  reference to a timer that exists.
\<close>

datatype action =
    CallCreate timerData
  | CallStart ref
  | CallPause ref
  | CallResume ref
  | CallStop ref
  | CallDestroy ref
  | CallCopy ref
  | Resumed thread

fun step :: "action \<Rightarrow> world \<Rightarrow> world" where
  "step (CallCreate d) w = snd (CreateTimer d w)"
| "step (CallStart r) w = (if r < length (heap w) then Start r w else w)"
| "step (CallPause r) w = (if r < length (heap w) then Pause r w else w)"
| "step (CallResume r) w = (if r < length (heap w) then Resume r w else w)"
| "step (CallStop r) w = (if r < length (heap w) then Stop r w else w)"
| "step (CallDestroy r) w = (if r < length (heap w) then snd (Destroy r w) else w)"
| "step (CallCopy r) w = (if r < length (heap w) then snd (Copy r w) else w)"
| "step (Resumed th) w = Wake th w"

fun exec :: "action list \<Rightarrow> world \<Rightarrow> world" where
  "exec [] w = w"
| "exec (a # as) w = exec as (step a w)"

text \<open>\<open>ticks n th\<close>: the scheduler resumes thread \<open>th\<close> \<open>n\<close> times and nothing else happens.\<close>

fun ticks :: "nat \<Rightarrow> thread \<Rightarrow> world \<Rightarrow> world" where
  "ticks 0 th w = w"
| "ticks (Suc n) th w = Wake th (ticks n th w)"

text \<open>The world of a process in which no timer has been created yet.\<close>

definition initial :: "bool \<Rightarrow> world" where
  "initial server =
     \<lparr> IsServer = server, heap = [], Timers = Map.empty, threads = [], trace = [] \<rparr>"

text \<open>The values carried by the \<^verbatim>\<open>onTick\<close> notifications of timer \<open>r\<close> in a trace, in order.\<close>

fun tick_values :: "ref \<Rightarrow> host_event list \<Rightarrow> number list" where
  "tick_values r [] = []"
| "tick_values r (OnTick r' v # es) = (if r' = r then v # tick_values r es else tick_values r es)"
| "tick_values r (e # es) = tick_values r es"

text \<open>What has been added to the trace between two worlds of one run.\<close>

definition published :: "world \<Rightarrow> world \<Rightarrow> host_event list" where
  "published w w' = drop (length (trace w)) (trace w')"

subsection \<open>Footprints and invariants\<close>

text \<open>
  \<open>footprint r w w'\<close>: going from \<open>w\<close> to \<open>w'\<close> touched no timer but \<open>r\<close> and kept its name,
  made no thread wait on another timer, revived no cancelled thread, only added to the trace,
  with no tick of another timer, and removed registry entries only together with the message
  of line 144.
\<close>

definition fp_heap :: "ref \<Rightarrow> world \<Rightarrow> world \<Rightarrow> bool" where
  "fp_heap r w w' \<longleftrightarrow>
     IsServer w' = IsServer w \<and> length (heap w') = length (heap w)
   \<and> (\<forall>c. c \<noteq> r \<longrightarrow> get c w' = get c w)
   \<and> Name (get r w') = Name (get r w)"

definition fp_threads :: "ref \<Rightarrow> world \<Rightarrow> world \<Rightarrow> bool" where
  "fp_threads r w w' \<longleftrightarrow>
     length (threads w) \<le> length (threads w')
   \<and> (\<forall>t c. t < length (threads w') \<longrightarrow> threads w' ! t = Waiting c \<longrightarrow>
          c = r \<or> (t < length (threads w) \<and> threads w ! t = Waiting c))
   \<and> (\<forall>t. t < length (threads w) \<longrightarrow> threads w ! t = Cancelled \<longrightarrow> threads w' ! t = Cancelled)"

definition fp_trace :: "ref \<Rightarrow> world \<Rightarrow> world \<Rightarrow> bool" where
  "fp_trace r w w' \<longleftrightarrow>
     (\<exists>es. trace w' = trace w @ es
        \<and> (\<forall>c. c \<noteq> r \<longrightarrow> tick_values c es = [])
        \<and> (\<forall>n. Timers w' n = Timers w n
              \<or> (Timers w' n = None \<and> Print (destroyed_message n) \<in> set es)))"

definition footprint :: "ref \<Rightarrow> world \<Rightarrow> world \<Rightarrow> bool" where
  "footprint r w w' \<longleftrightarrow> fp_heap r w w' \<and> fp_threads r w w' \<and> fp_trace r w w'"

text \<open>The timer an action works on, if any.\<close>

fun target :: "action \<Rightarrow> world \<Rightarrow> ref option" where
  "target (CallCreate d) w = None"
| "target (CallCopy x) w = None"
| "target (Resumed th) w =
     (if th < length (threads w)
      then (case threads w ! th of Waiting r \<Rightarrow> Some r | _ \<Rightarrow> None) else None)"
| "target (CallStart x) w = (if x < length (heap w) then Some x else None)"
| "target (CallPause x) w = (if x < length (heap w) then Some x else None)"
| "target (CallResume x) w = (if x < length (heap w) then Some x else None)"
| "target (CallStop x) w = (if x < length (heap w) then Some x else None)"
| "target (CallDestroy x) w = (if x < length (heap w) then Some x else None)"

text \<open>
  Two properties of every world the program can reach: a registered reference is that of an
  existing timer, kept under the timer's own name; a thread waits on an existing timer.
\<close>

definition registry_ok :: "world \<Rightarrow> bool" where
  "registry_ok w \<longleftrightarrow>
     (\<forall>n r. Timers w n = Some r \<longrightarrow> r < length (heap w) \<and> Name (get r w) = n)"

definition threads_ok :: "world \<Rightarrow> bool" where
  "threads_ok w \<longleftrightarrow>
     (\<forall>s \<in> set (threads w). case s of Waiting r \<Rightarrow> r < length (heap w) | _ \<Rightarrow> True)"

text \<open>A timer that says Running and has no tick loop: no handle, and no thread waiting on it.\<close>

definition idle :: "ref \<Rightarrow> world \<Rightarrow> bool" where
  "idle c w \<longleftrightarrow>
     c < length (heap w) \<and> Status (get c w) = Running \<and> timerThread (get c w) = None
   \<and> Waiting c \<notin> set (threads w)"

subsection \<open>The scenario of the specification\<close>

text \<open>
  \<^verbatim>\<open>CreateTimer({Name: "T1", Duration: 3, Tick: 1, AutoDestroy: false})\<close> on the server, in a
  process that has no timer yet; the new timer has reference 0, and the thread that \<^verbatim>\<open>Start\<close>
  spawns is thread 0.
\<close>

definition T1 :: timerData where
  "T1 = \<lparr> d_Name = ''T1'', d_Duration = Finite 3, d_Tick = Some (Finite 1),
          d_AutoDestroy = Some False \<rparr>"

definition created :: world where
  "created = snd (CreateTimer T1 (initial True))"

definition started :: world where
  "started = Start 0 created"

text \<open>
  A tick interval that does not divide the duration:
  \<^verbatim>\<open>CreateTimer({Name: "T2", Duration: 3, Tick: 2})\<close>, started and resumed once. \<open>uneven_exit\<close>
  is the world in which thread 0 leaves the loop during its second resumption (lines 181 and
  182 done, remaining time \<open>-1\<close>).
\<close>

definition T2 :: timerData where
  "T2 = \<lparr> d_Name = ''T2'', d_Duration = Finite 3, d_Tick = Some (Finite 2),
          d_AutoDestroy = None \<rparr>"

definition uneven :: world where
  "uneven = Wake 0 (Start 0 (snd (CreateTimer T2 (initial True))))"

definition uneven_exit :: world where
  "uneven_exit =
     upd 0 (\<lambda>t. t\<lparr>RemainingTime := number_sub (RemainingTime t) (Tick t)\<rparr>)
       (Fire_onTick 0 (set_thread 0 Executing uneven))"

text \<open>
  A tick interval that is not a whole number: \<open>tenth\<close> is the binary64 value of the literal
  \<^verbatim>\<open>0.1\<close>, and \<open>fractional\<close> is the world after
  \<^verbatim>\<open>CreateTimer({Name: "T3", Duration: 1, Tick: 0.1})\<close> and \<^verbatim>\<open>Start\<close>. \<open>fractional_values\<close> are
  the remaining times of that run, each the rounded difference of the one before and
  \<open>tenth\<close>.
\<close>

definition tenth :: rat where
  "tenth = 3602879701896397 / 36028797018963968"




text \<open>
  A duration beyond \<open>2\<^sup>5\<^sup>3\<close>: \<^verbatim>\<open>CreateTimer({Name: "T4", Duration: 1e16, Tick: 1})\<close> and
  \<^verbatim>\<open>Start\<close>.
\<close>

definition T4 :: timerData where
  "T4 = \<lparr> d_Name = ''T4'', d_Duration = Finite 10000000000000000, d_Tick = Some (Finite 1),
          d_AutoDestroy = None \<rparr>"

definition huge :: world where
  "huge = Start 0 (snd (CreateTimer T4 (initial True)))"

section \<open>Basic facts about the primitives\<close>

subsection \<open>Numbers\<close>

text \<open>\<open>ilog2\<close> is the binary exponent of a positive number.\<close>

lemma ilog2_bounds:
  assumes "0 < x"
  shows "pow2 (ilog2 x) \<le> x" and "x < pow2 (ilog2 x + 1)"
proof -
  show "pow2 (ilog2 x) \<le> x"
  proof (cases "1 \<le> x")
    case True
    then have f: "0 < \<lfloor>x\<rfloor>" by simp
    have "0 \<le> bitlen \<lfloor>x\<rfloor> - 1" using f by (simp add: bitlen_def floorlog_def)
    moreover have "(2::int) ^ nat (bitlen \<lfloor>x\<rfloor> - 1) \<le> \<lfloor>x\<rfloor>" using bitlen_bounds [OF f] by simp
    then have "(of_int (2 ^ nat (bitlen \<lfloor>x\<rfloor> - 1)) :: rat) \<le> of_int \<lfloor>x\<rfloor>"
      by (simp only: of_int_le_iff)
    then have "(2::rat) ^ nat (bitlen \<lfloor>x\<rfloor> - 1) \<le> of_int \<lfloor>x\<rfloor>" by simp
    then have "(2::rat) ^ nat (bitlen \<lfloor>x\<rfloor> - 1) \<le> x"
      using of_int_floor_le [of x] by (rule order_trans)
    ultimately show ?thesis using True by (simp add: ilog2_def pow2_def)
  next
    case False
    let ?N = "\<lceil>1 / x\<rceil>"
    have x1: "1 < 1 / x" using False assms by simp
    then have N: "2 \<le> ?N" by (simp add: le_ceiling_iff)
    then have p: "0 < ?N - 1" by simp
    let ?b = "bitlen (?N - 1)"
    have b: "1 \<le> ?b" using p by (simp add: bitlen_def floorlog_def)
    have "?N - 1 < 2 ^ nat ?b" using bitlen_bounds [OF p] by simp
    then have "?N \<le> 2 ^ nat ?b" by simp
    then have "(of_int ?N :: rat) \<le> of_int (2 ^ nat ?b)" by (simp only: of_int_le_iff)
    with le_of_int_ceiling [of "1 / x"] have "1 / x \<le> of_int (2 ^ nat ?b)" by (rule order_trans)
    then have "1 / x \<le> 2 ^ nat ?b" by simp
    then have "1 \<le> 2 ^ nat ?b * x" using assms by (simp add: pos_divide_le_eq)
    then have "1 / 2 ^ nat ?b \<le> x" by (simp add: pos_divide_le_eq mult.commute)
    then show ?thesis using False b by (simp add: ilog2_def pow2_def)
  qed
  show "x < pow2 (ilog2 x + 1)"
  proof (cases "1 \<le> x")
    case True
    then have f: "0 < \<lfloor>x\<rfloor>" by simp
    have b: "1 \<le> bitlen \<lfloor>x\<rfloor>" using f by (simp add: bitlen_def floorlog_def)
    have "\<lfloor>x\<rfloor> < 2 ^ nat (bitlen \<lfloor>x\<rfloor>)" using bitlen_bounds [OF f] by simp
    then have "\<lfloor>x\<rfloor> + 1 \<le> 2 ^ nat (bitlen \<lfloor>x\<rfloor>)" by simp
    then have "(of_int (\<lfloor>x\<rfloor> + 1) :: rat) \<le> of_int (2 ^ nat (bitlen \<lfloor>x\<rfloor>))"
      by (simp only: of_int_le_iff)
    moreover have "x < of_int (\<lfloor>x\<rfloor> + 1)" by linarith
    ultimately have "x < of_int (2 ^ nat (bitlen \<lfloor>x\<rfloor>))" by (rule less_le_trans [rotated])
    then have "x < 2 ^ nat (bitlen \<lfloor>x\<rfloor>)" by simp
    then show ?thesis using True b by (simp add: ilog2_def pow2_def)
  next
    case False
    let ?N = "\<lceil>1 / x\<rceil>"
    have x1: "1 < 1 / x" using False assms by simp
    then have N: "2 \<le> ?N" by (simp add: le_ceiling_iff)
    then have p: "0 < ?N - 1" by simp
    let ?b = "bitlen (?N - 1)"
    have b: "1 \<le> ?b" using p by (simp add: bitlen_def floorlog_def)
    have "(2::int) ^ nat (?b - 1) \<le> ?N - 1" using bitlen_bounds [OF p] by simp
    then have "(of_int (2 ^ nat (?b - 1)) :: rat) \<le> of_int (?N - 1)"
      by (simp only: of_int_le_iff)
    moreover have "of_int (?N - 1) < 1 / x" using ceiling_correct [of "1 / x"] by simp
    ultimately have "of_int (2 ^ nat (?b - 1)) < 1 / x" by (rule le_less_trans)
    then have "2 ^ nat (?b - 1) < 1 / x" by simp
    then have "2 ^ nat (?b - 1) * x < 1" using assms by (simp add: pos_less_divide_eq)
    then have lt: "x < 1 / 2 ^ nat (?b - 1)" by (simp add: pos_less_divide_eq mult.commute)
    show ?thesis
    proof (cases "?b = 1")
      case True
      then show ?thesis using lt False by (simp add: ilog2_def pow2_def)
    next
      case F: False
      then have "nat (- (1 - ?b)) = nat (?b - 1)" "\<not> 0 \<le> 1 - ?b" using b by simp_all
      then show ?thesis using lt False by (simp add: ilog2_def pow2_def)
    qed
  qed
qed

text \<open>
  Some roundings: the binary64 value of the literal \<^verbatim>\<open>0.1\<close> is \<open>tenth\<close>, \<^verbatim>\<open>1e16\<close> is a binary64
  value, a tie goes to the even neighbour, and a third is rounded at its 53rd bit.
\<close>

lemma scenario_numbers:
  "round_double (1 / 10) = Finite tenth"
  "round_double 10000000000000000 = Finite 10000000000000000"
  by code_simp+

lemma rounding_checks:
  "round_double (2 ^ 53 + 1) = Finite (2 ^ 53)"
  "round_double (2 ^ 53 + 3) = Finite (2 ^ 53 + 4)"
  "round_double (- (1 / 3)) = Finite (- (6004799503160661 / 18014398509481984))"
  by code_simp+

subsection \<open>Differences that the scenarios need\<close>

lemma small_rounding:
  "round_double 3 = Finite 3" "round_double 2 = Finite 2" "round_double 1 = Finite 1"
  "round_double 0 = Finite 0" "round_double (- 1) = Finite (- 1)"
  by code_simp+

lemma small_differences:
  "number_sub (Finite 3) (Finite 1) = Finite 2"
  "number_sub (Finite 2) (Finite 1) = Finite 1"
  "number_sub (Finite 1) (Finite 1) = Finite 0"
  "number_sub (Finite 3) (Finite 2) = Finite 1"
  "number_sub (Finite 1) (Finite 2) = Finite (- 1)"
  by (simp_all add: number_sub_def small_rounding)

lemmas program_defs =
  CreateTimer_def Start_def Pause_def Resume_def Stop_def Destroy_def Copy_def
  Wake_def run_loop_def run_exit_def task_spawn_run_def task_cancel_def
  Fire_onTick_def Fire_statusChanged_def Fire_completed_def
  new_object_def Timers_set_def Timers_delete_def set_thread_def emit_def upd_def get_def
  or_number_def or_boolean_def falsy_def gt_zero_def le_zero_def initial_def Let_def split_beta
  small_differences

lemma huge_difference:
  "number_sub (Finite 10000000000000000) (Finite 1) = Finite 10000000000000000"
  by code_simp

lemmas scenario_defs = T1_def created_def started_def T2_def uneven_def uneven_exit_def





lemma upd_proj [simp]:
  "IsServer (upd r f w) = IsServer w"
  "Timers (upd r f w) = Timers w"
  "threads (upd r f w) = threads w"
  "trace (upd r f w) = trace w"
  "length (heap (upd r f w)) = length (heap w)"
  by (simp_all add: upd_def)

lemma get_upd [simp]:
  "get r (upd r' f w) = (if r = r' \<and> r < length (heap w) then f (get r w) else get r w)"
  by (cases "r' < length (heap w)") (auto simp: get_def upd_def list_update_beyond)

lemma emit_proj [simp]:
  "IsServer (emit e w) = IsServer w"
  "heap (emit e w) = heap w"
  "Timers (emit e w) = Timers w"
  "threads (emit e w) = threads w"
  "trace (emit e w) = trace w @ [e]"
  "get r (emit e w) = get r w"
  by (simp_all add: emit_def get_def)

lemma set_thread_proj [simp]:
  "IsServer (set_thread th s w) = IsServer w"
  "heap (set_thread th s w) = heap w"
  "Timers (set_thread th s w) = Timers w"
  "threads (set_thread th s w) = (threads w)[th := s]"
  "trace (set_thread th s w) = trace w"
  "get r (set_thread th s w) = get r w"
  by (simp_all add: set_thread_def get_def)

lemma Fire_proj [simp]:
  "IsServer (Fire_onTick r w) = IsServer w"
  "heap (Fire_onTick r w) = heap w"
  "Timers (Fire_onTick r w) = Timers w"
  "threads (Fire_onTick r w) = threads w"
  "get r' (Fire_onTick r w) = get r' w"
  "IsServer (Fire_statusChanged r w) = IsServer w"
  "heap (Fire_statusChanged r w) = heap w"
  "Timers (Fire_statusChanged r w) = Timers w"
  "threads (Fire_statusChanged r w) = threads w"
  "get r' (Fire_statusChanged r w) = get r' w"
  "IsServer (Fire_completed r w) = IsServer w"
  "heap (Fire_completed r w) = heap w"
  "Timers (Fire_completed r w) = Timers w"
  "threads (Fire_completed r w) = threads w"
  "get r' (Fire_completed r w) = get r' w"
  by (simp_all add: Fire_onTick_def Fire_statusChanged_def Fire_completed_def)

lemma task_cancel_proj [simp]:
  "IsServer (task_cancel th w) = IsServer w"
  "heap (task_cancel th w) = heap w"
  "Timers (task_cancel th w) = Timers w"
  "trace (task_cancel th w) = trace w @ [TaskCancel th]"
  "get r (task_cancel th w) = get r w"
  by (simp_all add: task_cancel_def)

lemma Timers_set_proj [simp]:
  "IsServer (Timers_set n r w) = IsServer w"
  "heap (Timers_set n r w) = heap w"
  "Timers (Timers_set n r w) = (Timers w)(n \<mapsto> r)"
  "threads (Timers_set n r w) = threads w"
  "trace (Timers_set n r w) = trace w"
  "get r' (Timers_set n r w) = get r' w"
  by (simp_all add: Timers_set_def get_def)

lemma Timers_delete_proj [simp]:
  "IsServer (Timers_delete n w) = IsServer w"
  "heap (Timers_delete n w) = heap w"
  "Timers (Timers_delete n w) = (Timers w)(n := None)"
  "threads (Timers_delete n w) = threads w"
  "trace (Timers_delete n w) = trace w"
  "get r' (Timers_delete n w) = get r' w"
  by (simp_all add: Timers_delete_def get_def)

lemma new_object_proj [simp]:
  "fst (new_object t w) = length (heap w)"
  "IsServer (snd (new_object t w)) = IsServer w"
  "heap (snd (new_object t w)) = heap w @ [t]"
  "Timers (snd (new_object t w)) = Timers w"
  "threads (snd (new_object t w)) = threads w"
  "trace (snd (new_object t w)) = trace w"
  "get (length (heap w)) (snd (new_object t w)) = t"
  "r < length (heap w) \<Longrightarrow> get r (snd (new_object t w)) = get r w"
  by (simp_all add: new_object_def get_def nth_append)

lemma tick_values_append [simp]:
  "tick_values r (es @ es') = tick_values r es @ tick_values r es'"
  by (induction r es rule: tick_values.induct) simp_all

lemma tick_values_map_OnTick [simp]:
  "tick_values r (map (\<lambda>i. OnTick r (f i)) xs) = map f xs"
  by (induction xs) simp_all

lemma count_list_map_OnTick [simp]:
  "count_list (map (\<lambda>i. OnTick r (f i)) xs) (OnCompleted r') = 0"
  by (induction xs) simp_all

lemma published_append [simp]: "trace w' = trace w @ es \<Longrightarrow> published w w' = es"
  by (simp add: published_def)

subsection \<open>The scenario worlds, evaluated\<close>

lemma created_eq:
  "created =
     \<lparr> IsServer = True,
       heap = [\<lparr> Name = ''T1'', Duration = Finite 3, Tick = Finite 1, RemainingTime = Finite 3, AutoDestroy = True,
                 Status = Stopped, completed = True, statusChanged = True, onTick = True,
                 timerThread = None \<rparr>],
       Timers = [''T1'' \<mapsto> 0], threads = [], trace = [] \<rparr>"
  by (simp add: scenario_defs program_defs)

lemma started_eq:
  "started =
     \<lparr> IsServer = True,
       heap = [\<lparr> Name = ''T1'', Duration = Finite 3, Tick = Finite 1, RemainingTime = Finite 3, AutoDestroy = True,
                 Status = Running, completed = True, statusChanged = True, onTick = True,
                 timerThread = Some 0 \<rparr>],
       Timers = [''T1'' \<mapsto> 0], threads = [Waiting 0], trace = [StatusChanged 0 Running] \<rparr>"
  by (simp add: started_def created_eq program_defs)

lemma ticked_once_eq:
  "Wake 0 started =
     \<lparr> IsServer = True,
       heap = [\<lparr> Name = ''T1'', Duration = Finite 3, Tick = Finite 1, RemainingTime = Finite 2, AutoDestroy = True,
                 Status = Running, completed = True, statusChanged = True, onTick = True,
                 timerThread = Some 0 \<rparr>],
       Timers = [''T1'' \<mapsto> 0], threads = [Waiting 0],
       trace = [StatusChanged 0 Running, OnTick 0 (Finite 3)] \<rparr>"
  by (simp add: started_eq program_defs)

lemma ran_out_eq:
  "ticks 3 0 started =
     \<lparr> IsServer = True,
       heap = [\<lparr> Name = ''T1'', Duration = Finite 3, Tick = Finite 1, RemainingTime = Finite 0, AutoDestroy = True,
                 Status = Stopped, completed = False, statusChanged = False, onTick = True,
                 timerThread = Some 0 \<rparr>],
       Timers = [''T1'' \<mapsto> 0], threads = [Yielded],
       trace = [StatusChanged 0 Running, OnTick 0 (Finite 3), OnTick 0 (Finite 2), OnTick 0 (Finite 1),
                OnCompleted 0, StatusChanged 0 Completed, OnTick 0 (Finite 0)] \<rparr>"
  by (simp add: eval_nat_numeral ticked_once_eq) (simp add: program_defs)

lemma uneven_eq:
  "uneven =
     \<lparr> IsServer = True,
       heap = [\<lparr> Name = ''T2'', Duration = Finite 3, Tick = Finite 2, RemainingTime = Finite 1, AutoDestroy = True,
                 Status = Running, completed = True, statusChanged = True, onTick = True,
                 timerThread = Some 0 \<rparr>],
       Timers = [''T2'' \<mapsto> 0], threads = [Waiting 0],
       trace = [StatusChanged 0 Running, OnTick 0 (Finite 3)] \<rparr>"
  by (simp add: scenario_defs program_defs)

lemma uneven_exit_eq:
  "uneven_exit =
     \<lparr> IsServer = True,
       heap = [\<lparr> Name = ''T2'', Duration = Finite 3, Tick = Finite 2, RemainingTime = Finite (- 1), AutoDestroy = True,
                 Status = Running, completed = True, statusChanged = True, onTick = True,
                 timerThread = Some 0 \<rparr>],
       Timers = [''T2'' \<mapsto> 0], threads = [Executing],
       trace = [StatusChanged 0 Running, OnTick 0 (Finite 3), OnTick 0 (Finite 1)] \<rparr>"
  by (simp add: uneven_exit_def uneven_eq program_defs)

section \<open>Creation outside the server\<close>

text \<open>
  Claim C9. When \<^verbatim>\<open>CreateTimer\<close> is called outside the server it fails with the error of
  line 47, and the whole world, the registry included, is as it was before the call: no timer
  has been built or registered.
\<close>

theorem CreateTimer_off_server:
  "\<not> IsServer w \<Longrightarrow>
     CreateTimer d w = (Inl (Error ''Timers have to be created on the server''), w)"
  by (simp add: CreateTimer_def)

theorem CreateTimer_off_server_witness:
  "\<not> IsServer (initial False) \<and>
   CreateTimer \<lparr> d_Name = ''T1'', d_Duration = Finite 3, d_Tick = Some (Finite 1), d_AutoDestroy = None \<rparr>
     (initial False)
     = (Inl (Error ''Timers have to be created on the server''), initial False) \<and>
   Timers (initial False) ''T1'' = None"
  using CreateTimer_off_server
    [of "initial False" "\<lparr> d_Name = ''T1'', d_Duration = Finite 3, d_Tick = Some (Finite 1), d_AutoDestroy = None \<rparr>"]
  by (simp add: initial_def)

section \<open>Stop\<close>

text \<open>
  Claim C6. For a timer in any state other than Stopped, \<^verbatim>\<open>Stop\<close> sets the status to Stopped
  and resets the remaining time to the duration, whatever the progress was; for a timer that
  is already Stopped, \<^verbatim>\<open>Stop\<close> changes nothing at all (so it publishes nothing).
\<close>

theorem Stop_resets:
  assumes "r < length (heap w)"
  shows "(Status (get r w) \<noteq> Stopped \<longrightarrow>
            Status (get r (Stop r w)) = Stopped
          \<and> RemainingTime (get r (Stop r w)) = Duration (get r w))
       \<and> (Status (get r w) = Stopped \<longrightarrow> Stop r w = w)"
  using assms by (simp add: Stop_def Let_def split: option.splits)

theorem Stop_resets_witness:
  "Status (get 0 (Wake 0 started)) = Running
   \<and> RemainingTime (get 0 (Wake 0 started)) = Finite 2
   \<and> Status (get 0 (Stop 0 (Wake 0 started))) = Stopped
   \<and> RemainingTime (get 0 (Stop 0 (Wake 0 started))) = Finite 3
   \<and> Status (get 0 created) = Stopped
   \<and> Stop 0 created = created"
proof -
  have a: "0 < length (heap (Wake 0 started))" by (simp add: ticked_once_eq)
  have b: "0 < length (heap created)" by (simp add: created_eq)
  have c: "Status (get 0 (Wake 0 started)) = Running" "RemainingTime (get 0 (Wake 0 started)) = Finite 2"
    "Duration (get 0 (Wake 0 started)) = Finite 3" "Status (get 0 created) = Stopped"
    by (simp_all add: ticked_once_eq created_eq get_def)
  show ?thesis
    using Stop_resets [OF a] Stop_resets [OF b] c by simp
qed

section \<open>Two timers with one name\<close>

text \<open>
  Claim C8. On the server, two \<^verbatim>\<open>CreateTimer\<close> calls with the same name both succeed (no
  error). After the second, the name is bound to the second timer, the registry has no more
  names than after the first call, every other name is bound as before, and (in a registry
  that only holds timers that exist) no name leads to the first timer any more.
\<close>

theorem same_name_overwrites:
  assumes "IsServer w" and "d_Name d2 = d_Name d1"
    and "CreateTimer d1 w = (res1, w1)" and "CreateTimer d2 w1 = (res2, w2)"
  shows "res1 = Inr (length (heap w)) \<and> res2 = Inr (Suc (length (heap w)))
       \<and> Timers w1 (d_Name d1) = Some (length (heap w))
       \<and> Timers w2 (d_Name d1) = Some (Suc (length (heap w)))
       \<and> dom (Timers w2) = dom (Timers w1)
       \<and> (\<forall>n. n \<noteq> d_Name d1 \<longrightarrow> Timers w2 n = Timers w n)
       \<and> ((\<forall>n r. Timers w n = Some r \<longrightarrow> r < length (heap w)) \<longrightarrow>
            (\<forall>n. Timers w2 n \<noteq> Some (length (heap w))))"
proof -
  have r: "res1 = Inr (length (heap w))" "res2 = Inr (Suc (length (heap w)))"
    and t1: "Timers w1 = (Timers w)(d_Name d1 \<mapsto> length (heap w))"
    and t2: "Timers w2 = (Timers w)(d_Name d1 \<mapsto> Suc (length (heap w)))"
    using assms by (auto simp add: CreateTimer_def Let_def split_beta)
  have "Timers w2 n \<noteq> Some (length (heap w))"
    if "\<forall>n r. Timers w n = Some r \<longrightarrow> r < length (heap w)" for n
    using that [rule_format, of n "length (heap w)"] by (auto simp add: t2)
  then show ?thesis
    using r by (simp add: t1 t2)
qed

theorem same_name_overwrites_witness:
  "IsServer (initial True) \<and> d_Name T1 = d_Name (T1\<lparr>d_Duration := Finite 5\<rparr>)
   \<and> fst (CreateTimer T1 (initial True)) = Inr 0
   \<and> fst (CreateTimer (T1\<lparr>d_Duration := Finite 5\<rparr>) created) = Inr 1
   \<and> Timers created ''T1'' = Some 0
   \<and> Timers (snd (CreateTimer (T1\<lparr>d_Duration := Finite 5\<rparr>) created)) ''T1'' = Some 1
   \<and> (\<forall>n. Timers (snd (CreateTimer (T1\<lparr>d_Duration := Finite 5\<rparr>) created)) n \<noteq> Some 0)"
proof -
  have a: "IsServer (initial True)" by (simp add: initial_def)
  have b: "d_Name (T1\<lparr>d_Duration := Finite 5\<rparr>) = d_Name T1" by simp
  have c: "CreateTimer T1 (initial True) = (fst (CreateTimer T1 (initial True)), created)"
    by (simp add: created_def)
  have d: "CreateTimer (T1\<lparr>d_Duration := Finite 5\<rparr>) created =
             (fst (CreateTimer (T1\<lparr>d_Duration := Finite 5\<rparr>) created),
              snd (CreateTimer (T1\<lparr>d_Duration := Finite 5\<rparr>) created))"
    by simp
  have e: "\<forall>n r. Timers (initial True) n = Some r \<longrightarrow> r < length (heap (initial True))"
    by (simp add: initial_def)
  have f: "d_Name T1 = ''T1''" "length (heap (initial True)) = 0"
    by (simp_all add: T1_def initial_def)
  show ?thesis
    using same_name_overwrites [OF a b c d] a b e f by simp
qed

section \<open>The tick loop\<close>


lemma Wake_continue:
  assumes "th < length (threads w)" "threads w ! th = Waiting r" "r < length (heap w)"
    "Status (get r w) = Running"
    "gt_zero (number_sub (RemainingTime (get r w)) (Tick (get r w)))"
  shows "Wake th w =
           w\<lparr>heap := (heap w)[r := (get r w)\<lparr>RemainingTime :=
                                               number_sub (RemainingTime (get r w)) (Tick (get r w))\<rparr>],
             trace := trace w @ [OnTick r (RemainingTime (get r w))]\<rparr>"
  using assms
  by (simp add: Wake_def Let_def run_loop_def get_def upd_def
      Fire_onTick_def emit_def set_thread_def list_update_same_conv)

lemma run_exit_completes:
  assumes "r < length (heap w)"
    and "le_zero (RemainingTime (get r w))" and "Status (get r w) = Running"
  shows "trace (run_exit th r w) =
           trace w @ [OnCompleted r, StatusChanged r Completed, OnTick r (RemainingTime (get r w))]
             @ (if AutoDestroy (get r w) \<and> timerThread (get r w) = None
                then [Print (destroyed_message (Name (get r w)))] else [])"
    and "RemainingTime (get r (run_exit th r w)) = RemainingTime (get r w)"
    and "Status (get r (run_exit th r w)) = (if AutoDestroy (get r w) then Stopped else Completed)"
    and "completed (get r (run_exit th r w)) = (completed (get r w) \<and> \<not> AutoDestroy (get r w))"
    and "statusChanged (get r (run_exit th r w)) =
           (statusChanged (get r w) \<and> \<not> AutoDestroy (get r w))"
    and "\<not> AutoDestroy (get r w) \<Longrightarrow> Timers (run_exit th r w) = Timers w"
  using assms
  by (simp_all add: run_exit_def Let_def Destroy_def Fire_completed_def Fire_statusChanged_def
      Fire_onTick_def split_beta split: option.splits)

text \<open>
  Claim C5. When thread \<open>th\<close> leaves the loop of timer \<open>r\<close> with the remaining time exhausted
  (\<^verbatim>\<open>RemainingTime <= 0\<close>) and the status still Running, what it adds to the trace is, in this
  order: \<^verbatim>\<open>completed\<close>, \<^verbatim>\<open>statusChanged\<close> (read as Completed by a subscriber), and a last
  \<^verbatim>\<open>onTick\<close> that carries the remaining time as it is, zero or negative. \<^verbatim>\<open>Destroy\<close> comes
  only after these and only when \<^verbatim>\<open>AutoDestroy\<close> holds: its message, if it gets that far, is
  the last entry, the status it sets (Stopped) is seen and the two channels it destroys are
  dead exactly when \<^verbatim>\<open>AutoDestroy\<close> holds, and otherwise the registry is untouched.
\<close>

theorem completion_order:
  assumes "r < length (heap w)"
    and "le_zero (RemainingTime (get r w))" and "Status (get r w) = Running"
  shows "trace (run_exit th r w) =
           trace w @ [OnCompleted r, StatusChanged r Completed, OnTick r (RemainingTime (get r w))]
             @ (if AutoDestroy (get r w) \<and> timerThread (get r w) = None
                then [Print (destroyed_message (Name (get r w)))] else [])
       \<and> RemainingTime (get r (run_exit th r w)) = RemainingTime (get r w)
       \<and> Status (get r (run_exit th r w)) = (if AutoDestroy (get r w) then Stopped else Completed)
       \<and> completed (get r (run_exit th r w)) = (completed (get r w) \<and> \<not> AutoDestroy (get r w))
       \<and> statusChanged (get r (run_exit th r w)) =
           (statusChanged (get r w) \<and> \<not> AutoDestroy (get r w))
       \<and> (\<not> AutoDestroy (get r w) \<longrightarrow> Timers (run_exit th r w) = Timers w)"
  using run_exit_completes [OF assms] by simp

theorem completion_order_witness:
  "Wake 0 uneven = run_exit 0 0 uneven_exit
   \<and> RemainingTime (get 0 uneven_exit) = Finite (- 1) \<and> Status (get 0 uneven_exit) = Running
   \<and> trace (run_exit 0 0 uneven_exit) =
       [StatusChanged 0 Running, OnTick 0 (Finite 3), OnTick 0 (Finite 1),
        OnCompleted 0, StatusChanged 0 Completed, OnTick 0 (Finite (- 1))]
   \<and> Status (get 0 (run_exit 0 0 uneven_exit)) = Stopped"
proof -
  have g: "get 0 uneven_exit =
             \<lparr> Name = ''T2'', Duration = Finite 3, Tick = Finite 2, RemainingTime = Finite (- 1),
               AutoDestroy = True, Status = Running, completed = True, statusChanged = True,
               onTick = True, timerThread = Some 0 \<rparr>"
    by (simp add: uneven_exit_eq get_def)
  have h: "0 < length (heap uneven_exit)" "le_zero (RemainingTime (get 0 uneven_exit))"
    "Status (get 0 uneven_exit) = Running"
    unfolding g by (simp_all add: uneven_exit_eq le_zero_def)
  have t: "trace uneven_exit = [StatusChanged 0 Running, OnTick 0 (Finite 3), OnTick 0 (Finite 1)]"
    by (simp add: uneven_exit_eq)
  have k: "Wake 0 uneven = run_exit 0 0 uneven_exit"
    by (simp add: uneven_exit_def) (simp add: Wake_def Let_def run_loop_def uneven_eq upd_def
        get_def set_thread_def Fire_onTick_def emit_def small_differences gt_zero_def)
  show ?thesis
    using completion_order [OF h, of 0] k t unfolding g by simp
qed

subsection \<open>A run of the loop to its end\<close>

lemma ceiling_steps:
  fixes D T :: rat
  assumes "0 < D" "0 < T" "n = nat \<lceil>D / T\<rceil>"
  shows "D \<le> of_nat n * T" and "k < n \<Longrightarrow> of_nat k * T < D" and "0 < n"
proof -
  let ?x = "D / T"
  have "0 < ?x" using assms by simp
  then have c: "0 < \<lceil>?x\<rceil>" by simp
  then have n_eq: "int n = \<lceil>?x\<rceil>" unfolding assms(3) by (simp only: int_nat_eq) simp
  show "0 < n" using c n_eq by linarith
  have "?x \<le> of_int (int n)" unfolding n_eq by (rule le_of_int_ceiling)
  then have "?x \<le> of_nat n" by simp
  then show "D \<le> of_nat n * T"
    using pos_divide_le_eq [OF assms(2)] by blast
  show "of_nat k * T < D" if "k < n"
  proof -
    have "int k < \<lceil>?x\<rceil>" using that n_eq by linarith
    then have "of_int (int k) < ?x" by (simp only: less_ceiling_iff)
    then have "of_nat k < ?x" by simp
    then show ?thesis
      using pos_less_divide_eq [OF assms(2)] by blast
  qed
qed

text \<open>
  Whole numbers up to \<open>2\<^sup>5\<^sup>3\<close> are binary64 values, and their differences within that range are
  exact; so is every subtraction of a run that starts from whole numbers \<open>d\<close> and \<open>t\<close> in that
  range.
\<close>

lemma round_even_of_int: "round_even (of_int j) = j"
  by (simp add: round_even_def)

lemma ilog2_of_int: "0 < a \<Longrightarrow> ilog2 (of_int a) = bitlen a - 1"
  by (simp add: ilog2_def)

lemma bitlen_le_54:
  assumes "0 < a" "a \<le> 2 ^ 53"
  shows "1 \<le> bitlen a" "bitlen a \<le> 54"
proof -
  show "1 \<le> bitlen a" using assms(1) by (simp add: bitlen_def floorlog_def)
  have "(2::int) ^ nat (bitlen a - 1) \<le> a" using bitlen_bounds [OF assms(1)] by simp
  then have h: "(2::int) ^ nat (bitlen a - 1) \<le> 2 ^ 53" using assms(2) by linarith
  have "nat (bitlen a - 1) \<le> 53"
    by (rule power_le_imp_le_exp [of "2::int", OF _ h]) simp
  then show "bitlen a \<le> 54" by linarith
qed

lemma round_double_nat:
  assumes "0 < a" "a \<le> 2 ^ 53"
  shows "of_int (round_even (of_int a / pow2 (max (bitlen a - 1 - 52) (- 1074))))
           * pow2 (max (bitlen a - 1 - 52) (- 1074)) = (of_int a :: rat)"
proof -
  note b = bitlen_le_54 [OF assms]
  let ?e = "bitlen a - 1 - 52"
  have e: "max ?e (- 1074) = ?e" using b by simp
  show ?thesis
  proof (cases "?e \<le> 0")
    case True
    define j where "j = nat (- ?e)"
    have p: "pow2 ?e = 1 / 2 ^ j"
      using True by (cases "?e = 0") (simp_all add: pow2_def j_def)
    have "of_int a / pow2 ?e = (of_int (a * 2 ^ j) :: rat)" unfolding p by simp
    then have "round_even (of_int a / pow2 ?e) = a * 2 ^ j"
      by (simp only: round_even_of_int)
    then show ?thesis unfolding e p by simp
  next
    case False
    then have e1: "?e = 1" using b by linarith
    then have "nat (bitlen a - 1) = 53" by linarith
    then have "(2::int) ^ 53 \<le> a" using bitlen_bounds [OF assms(1)] by simp
    then have a: "a = 2 ^ 53" using assms(2) by linarith
    have p: "pow2 1 = 2" by (simp add: pow2_def)
    have "(of_int a :: rat) / pow2 1 = of_int (2 ^ 52)" unfolding a p by simp
    then have "round_even (of_int a / pow2 1) = 2 ^ 52"
      by (simp only: round_even_of_int)
    then show ?thesis unfolding e e1 by (simp add: a p)
  qed
qed

lemma round_double_of_int:
  assumes "\<bar>k\<bar> \<le> 2 ^ 53"
  shows "round_double (of_int k) = Finite (of_int k)"
proof (cases "k = 0")
  case True
  then show ?thesis by (simp add: round_double_def)
next
  case False
  let ?a = "\<bar>k\<bar>"
  have a: "0 < ?a" "?a \<le> 2 ^ 53" using False assms by simp_all
  have abs: "\<bar>of_int k :: rat\<bar> = of_int ?a" by simp
  have y: "of_int (round_even (of_int ?a / pow2 (max (ilog2 (of_int ?a) - 52) (- 1074))))
           * pow2 (max (ilog2 (of_int ?a) - 52) (- 1074)) = (of_int ?a :: rat)"
    unfolding ilog2_of_int [OF a(1)] by (rule round_double_nat [OF a])
  have "ilog2 (of_int ?a) = bitlen ?a - 1" by (rule ilog2_of_int [OF a(1)])
  then have small: "\<not> 1024 \<le> ilog2 (of_int ?a)" using bitlen_le_54 [OF a] by simp
  have nz: "(of_int k :: rat) \<noteq> 0" using False by simp
  show ?thesis
    unfolding round_double_def Let_def abs y using small nz
    by (cases "0 < k") simp_all
qed

lemma whole_numbers_exact:
  fixes d t :: int
  assumes "0 < d" "d \<le> 2 ^ 53" "0 < t" "t \<le> 2 ^ 53" "n = nat \<lceil>(of_int d :: rat) / of_int t\<rceil>"
  shows "\<forall>k<n. number_sub (Finite (of_int d - of_nat k * of_int t)) (Finite (of_int t))
                   = Finite (of_int d - of_nat (Suc k) * of_int t)"
proof (intro allI impI)
  fix k assume k: "k < n"
  have "(0::rat) < of_int d" "(0::rat) < of_int t" using assms by simp_all
  then have "(of_nat k :: rat) * of_int t < of_int d"
    using ceiling_steps(2) [OF _ _ assms(5) k] by blast
  then have "(of_int (int k * t) :: rat) < of_int d" by simp
  then have lt: "int k * t < d" by (simp only: of_int_less_iff)
  let ?z = "d - int (Suc k) * t"
  have z: "?z = d - int k * t - t" by (simp add: algebra_simps)
  have "\<bar>?z\<bar> \<le> 2 ^ 53"
  proof -
    have "0 \<le> int k * t" using assms(3) by simp
    then have "?z \<le> d" using assms(3) unfolding z by linarith
    moreover have "- t < ?z" using lt unfolding z by linarith
    ultimately show ?thesis using assms(2,4) by linarith
  qed
  then have r: "round_double (of_int ?z) = Finite (of_int ?z)" by (rule round_double_of_int)
  have eq: "(of_int d :: rat) - of_nat k * of_int t - of_int t = of_int ?z"
    by (simp add: algebra_simps)
  have eq2: "(of_int d :: rat) - of_nat (Suc k) * of_int t = of_int ?z"
    by (simp add: algebra_simps)
  show "number_sub (Finite (of_int d - of_nat k * of_int t)) (Finite (of_int t))
          = Finite (of_int d - of_nat (Suc k) * of_int t)"
    unfolding eq2 by (simp add: number_sub_def eq r del: of_int_diff of_int_mult of_nat_Suc)
qed

text \<open>
  The world after \<open>K\<close> resumptions, when the remaining times are \<open>v 0, v 1, \<dots>\<close>, each the
  program's difference of the one before and the tick interval, and all positive.
\<close>

lemma ticks_running:
  assumes "r < length (heap w)" "th < length (threads w)" "threads w ! th = Waiting r"
    "Status (get r w) = Running"
    "RemainingTime (get r w) = v 0" "Tick (get r w) = t"
    "\<forall>k<K. number_sub (v k) t = v (Suc k)" "\<forall>k\<le>K. gt_zero (v k)"
  shows "ticks K th w =
           w\<lparr>heap := (heap w)[r := (get r w)\<lparr>RemainingTime := v K\<rparr>],
             trace := trace w @ map (\<lambda>i. OnTick r (v i)) [0..<K]\<rparr>"
  using assms
proof (induction K)
  case 0
  then have "v 0 = RemainingTime (get r w)" by simp
  then show ?case by (simp add: get_def)
next
  case (Suc K)
  let ?w = "w\<lparr>heap := (heap w)[r := (get r w)\<lparr>RemainingTime := v K\<rparr>],
               trace := trace w @ map (\<lambda>i. OnTick r (v i)) [0..<K]\<rparr>"
  have IH: "ticks K th w = ?w"
    using Suc.IH Suc.prems by simp
  have g: "get r ?w = (get r w)\<lparr>RemainingTime := v K\<rparr>"
    using Suc.prems(1) by (simp add: get_def)
  have sub: "number_sub (v K) t = v (Suc K)" using Suc.prems(7) by simp
  have pos: "gt_zero (v (Suc K))" using Suc.prems(8) by simp
  have pre: "th < length (threads ?w)" "threads ?w ! th = Waiting r" "r < length (heap ?w)"
    "Status (get r ?w) = Running"
    "gt_zero (number_sub (RemainingTime (get r ?w)) (Tick (get r ?w)))"
    unfolding g using Suc.prems(1-4,6) sub pos by simp_all
  show ?case
    unfolding ticks.simps IH Wake_continue [OF pre] g
    using Suc.prems(1,6) sub by simp
qed

text \<open>
  The run of the timer with duration \<^verbatim>\<open>1e16\<close> never ends: after any number of resumptions
  the timer is Running, the thread is waiting again and \<^verbatim>\<open>completed\<close> has not been fired.
\<close>

lemma huge_never_completes:
  "Status (get 0 (ticks K 0 huge)) = Running
   \<and> threads (ticks K 0 huge) ! 0 = Waiting 0
   \<and> RemainingTime (get 0 (ticks K 0 huge)) = Finite 10000000000000000
   \<and> count_list (trace (ticks K 0 huge)) (OnCompleted 0) = 0"
proof -
  have h: "huge =
     \<lparr> IsServer = True,
       heap = [\<lparr> Name = ''T4'', Duration = Finite 10000000000000000, Tick = Finite 1,
                 RemainingTime = Finite 10000000000000000, AutoDestroy = True,
                 Status = Running, completed = True, statusChanged = True, onTick = True,
                 timerThread = Some 0 \<rparr>],
       Timers = [''T4'' \<mapsto> 0], threads = [Waiting 0], trace = [StatusChanged 0 Running] \<rparr>"
    by (simp add: huge_def T4_def program_defs)
  have pre: "0 < length (heap huge)" "0 < length (threads huge)" "threads huge ! 0 = Waiting 0"
    "Status (get 0 huge) = Running"
    "RemainingTime (get 0 huge) = (\<lambda>k::nat. Finite 10000000000000000) 0"
    "Tick (get 0 huge) = Finite 1"
    by (simp_all add: h get_def)
  have sub: "\<forall>k<K. number_sub ((\<lambda>k::nat. Finite 10000000000000000) k) (Finite 1)
                     = (\<lambda>k::nat. Finite 10000000000000000) (Suc k)"
    by (simp add: huge_difference)
  have pos: "\<forall>k\<le>K. gt_zero ((\<lambda>k::nat. Finite 10000000000000000) k)"
    by (simp add: gt_zero_def)
  have t: "ticks K 0 huge =
     huge\<lparr>heap := (heap huge)[0 := (get 0 huge)\<lparr>RemainingTime := Finite 10000000000000000\<rparr>],
          trace := trace huge @ map (\<lambda>i. OnTick 0 (Finite 10000000000000000)) [0..<K]\<rparr>"
    using ticks_running [where v = "\<lambda>k::nat. Finite 10000000000000000" and K = K,
        OF pre sub pos] by simp
  show ?thesis
    unfolding t by (simp add: h get_def)
qed






section \<open>What the program does where it departs from its intent\<close>

text \<open>
  Claim C1, evaluated on the program. The timer of the scenario is created with
  \<^verbatim>\<open>AutoDestroy: false\<close>, yet line 57 stores \<^verbatim>\<open>AutoDestroy || true\<close>, which is \<^verbatim>\<open>true\<close>. When the
  run ends (third resumption) \<^verbatim>\<open>Destroy\<close> is therefore invoked: the status is Stopped and the
  \<^verbatim>\<open>completed\<close> and \<^verbatim>\<open>statusChanged\<close> channels are destroyed. The thread is left suspended at
  line 137, before \<^verbatim>\<open>Timers.delete\<close>, so the entry \<^verbatim>\<open>T1\<close> is still in the registry.
\<close>

theorem explicit_false_still_destroys:
  "d_AutoDestroy T1 = Some False
   \<and> AutoDestroy (get 0 created)
   \<and> Status (get 0 (ticks 3 0 started)) = Stopped
   \<and> \<not> completed (get 0 (ticks 3 0 started))
   \<and> \<not> statusChanged (get 0 (ticks 3 0 started))
   \<and> threads (ticks 3 0 started) ! 0 = Yielded
   \<and> Timers (ticks 3 0 started) ''T1'' = Some 0"
  by (simp add: ran_out_eq created_eq get_def T1_def)

text \<open>
  Claim C2, evaluated on the program. \<^verbatim>\<open>Destroy\<close> on the freshly created timer returns and
  removes the entry, but the \<^verbatim>\<open>onTick\<close> channel is still live: a later \<^verbatim>\<open>Start\<close> spawns a
  loop whose first resumption publishes \<^verbatim>\<open>onTick\<close>. \<^verbatim>\<open>Destroy\<close> on the running timer does not
  return: its caller is suspended at line 137, the tick thread is still scheduled, the entry
  is still in the registry, and the next resumption of the thread publishes \<^verbatim>\<open>onTick\<close>.
\<close>

theorem Destroy_leaves_onTick:
  "fst (Destroy 0 created) = Returned
   \<and> Status (get 0 (snd (Destroy 0 created))) = Stopped
   \<and> \<not> completed (get 0 (snd (Destroy 0 created)))
   \<and> \<not> statusChanged (get 0 (snd (Destroy 0 created)))
   \<and> onTick (get 0 (snd (Destroy 0 created)))
   \<and> Timers (snd (Destroy 0 created)) ''T1'' = None
   \<and> tick_values 0
        (published (snd (Destroy 0 created)) (Wake 0 (Start 0 (snd (Destroy 0 created)))))
       = [Finite 3]
   \<and> fst (Destroy 0 started) = Suspended
   \<and> threads (snd (Destroy 0 started)) ! 0 = Waiting 0
   \<and> Timers (snd (Destroy 0 started)) ''T1'' = Some 0
   \<and> published (snd (Destroy 0 started)) (Wake 0 (snd (Destroy 0 started))) = [OnTick 0 (Finite 3)]"
  by (simp add: created_eq started_eq published_def) (simp add: program_defs)

section \<open>Footprints of the methods\<close>

lemma nth_update_total: "(xs[i := x]) ! j = (if i = j \<and> i < length xs then x else xs ! j)"
  by (cases "i < length xs") (auto simp: list_update_beyond)

lemma fp_heap_trans: "fp_heap r w w1 \<Longrightarrow> fp_heap r w1 w2 \<Longrightarrow> fp_heap r w w2"
  by (simp add: fp_heap_def)

lemma fp_threads_trans: "fp_threads r w w1 \<Longrightarrow> fp_threads r w1 w2 \<Longrightarrow> fp_threads r w w2"
  unfolding fp_threads_def
  by (metis (no_types, lifting) le_trans less_le_trans)

lemma fp_trace_trans:
  assumes "fp_trace r w w1" "fp_trace r w1 w2"
  shows "fp_trace r w w2"
proof -
  obtain es where es: "trace w1 = trace w @ es" "\<forall>c. c \<noteq> r \<longrightarrow> tick_values c es = []"
    "\<forall>n. Timers w1 n = Timers w n \<or> (Timers w1 n = None \<and> Print (destroyed_message n) \<in> set es)"
    using assms(1) unfolding fp_trace_def by blast
  obtain es' where es': "trace w2 = trace w1 @ es'" "\<forall>c. c \<noteq> r \<longrightarrow> tick_values c es' = []"
    "\<forall>n. Timers w2 n = Timers w1 n \<or> (Timers w2 n = None \<and> Print (destroyed_message n) \<in> set es')"
    using assms(2) unfolding fp_trace_def by blast
  have a: "trace w2 = trace w @ (es @ es')" using es(1) es'(1) by simp
  have b: "\<forall>c. c \<noteq> r \<longrightarrow> tick_values c (es @ es') = []" using es(2) es'(2) by simp
  have c: "Timers w2 n = Timers w n \<or> (Timers w2 n = None \<and> Print (destroyed_message n) \<in> set (es @ es'))" for n
    using es(3) [rule_format, of n] es'(3) [rule_format, of n] by auto
  show ?thesis unfolding fp_trace_def using a b c by blast
qed

lemma footprint_refl [simp]: "footprint r w w"
  by (simp add: footprint_def fp_heap_def fp_threads_def fp_trace_def)

lemma footprint_trans: "footprint r w w1 \<Longrightarrow> footprint r w1 w2 \<Longrightarrow> footprint r w w2"
  unfolding footprint_def using fp_heap_trans fp_threads_trans fp_trace_trans by blast

lemma step_upd: "(\<And>t. Name (f t) = Name t) \<Longrightarrow> footprint r w (upd r f w)"
  by (simp add: footprint_def fp_heap_def fp_threads_def fp_trace_def)

lemma step_emit:
  "(\<And>c v. e = OnTick c v \<Longrightarrow> c = r) \<Longrightarrow> footprint r w (emit e w)"
  by (cases e) (auto simp add: footprint_def fp_heap_def fp_threads_def fp_trace_def)

lemma step_set_thread:
  "(\<And>c. s = Waiting c \<Longrightarrow> c = r) \<Longrightarrow> th < length (threads w) \<longrightarrow> threads w ! th \<noteq> Cancelled \<or> s = Cancelled \<Longrightarrow>
     footprint r w (set_thread th s w)"
  by (auto simp add: footprint_def fp_heap_def fp_threads_def fp_trace_def nth_update_total)

lemma step_Timers_delete_emit:
  "footprint r w (emit (Print (destroyed_message n)) (Timers_delete n w))"
  by (auto simp add: footprint_def fp_heap_def fp_threads_def fp_trace_def)


lemma fp_upd:
  "(\<And>t. Name (f t) = Name t) \<Longrightarrow> footprint r w w1 \<Longrightarrow> footprint r w (upd r f w1)"
  using footprint_trans step_upd by blast

lemma fp_emit:
  "(\<And>c v. e = OnTick c v \<Longrightarrow> c = r) \<Longrightarrow> footprint r w w1 \<Longrightarrow> footprint r w (emit e w1)"
  using footprint_trans step_emit by blast

lemma fp_Fire:
  "footprint r w w1 \<Longrightarrow> footprint r w (Fire_onTick r w1)"
  "footprint r w w1 \<Longrightarrow> footprint r w (Fire_statusChanged r w1)"
  "footprint r w w1 \<Longrightarrow> footprint r w (Fire_completed r w1)"
  by (auto simp add: Fire_onTick_def Fire_statusChanged_def Fire_completed_def intro!: fp_emit)

lemma fp_set_thread:
  "(\<And>c. s = Waiting c \<Longrightarrow> c = r) \<Longrightarrow> threads w1 ! th \<noteq> Cancelled \<or> s = Cancelled \<Longrightarrow>
     footprint r w w1 \<Longrightarrow> footprint r w (set_thread th s w1)"
  using footprint_trans [OF _ step_set_thread] by blast

lemma fp_task_cancel: "footprint r w w1 \<Longrightarrow> footprint r w (task_cancel th w1)"
  unfolding task_cancel_def
  by (rule fp_emit, simp, rule fp_set_thread) (auto split: thread_state.splits)

lemma fp_Destroy: "footprint r w w1 \<Longrightarrow> footprint r w (snd (Destroy r w1))"
  unfolding Destroy_def Let_def
  by (auto split: option.splits intro!: fp_upd footprint_trans [OF _ step_Timers_delete_emit])

lemma Destroy_threads [simp]: "threads (snd (Destroy r w)) = threads w"
  by (simp add: Destroy_def Let_def split: option.splits)

lemma fp_run_exit:
  "threads w1 ! th = Executing \<Longrightarrow> footprint r w w1 \<Longrightarrow> footprint r w (run_exit th r w1)"
  unfolding run_exit_def Let_def split_beta
  by (auto intro!: fp_set_thread fp_Destroy fp_Fire fp_upd split: outcome.splits)

lemma fp_run_loop:
  "threads w1 ! th = Executing \<Longrightarrow> footprint r w w1 \<Longrightarrow> footprint r w (run_loop th r w1)"
  unfolding run_loop_def
  by (auto intro!: fp_set_thread fp_run_exit)


lemma step_new_thread: "footprint r w (w\<lparr>threads := threads w @ [Executing]\<rparr>)"
  by (auto simp add: footprint_def fp_heap_def fp_threads_def fp_trace_def get_def nth_append)

lemma fp_task_spawn_run:
  "footprint r w w1 \<Longrightarrow> footprint r w (snd (task_spawn_run r w1))"
  unfolding task_spawn_run_def Let_def
  by (auto intro!: fp_run_loop footprint_trans [OF _ step_new_thread])

lemma footprint_Start: "footprint r w (Start r w)"
  unfolding Start_def Let_def split_beta
  by (auto intro!: fp_Fire fp_upd fp_task_spawn_run)

lemma footprint_Resume: "footprint r w (Resume r w)"
  unfolding Resume_def Let_def split_beta
  by (auto intro!: fp_Fire fp_upd fp_task_spawn_run)

lemma footprint_Pause: "footprint r w (Pause r w)"
  unfolding Pause_def Let_def
  by (auto intro!: fp_Fire fp_upd fp_task_cancel split: option.splits)

lemma footprint_Stop: "footprint r w (Stop r w)"
  unfolding Stop_def Let_def
  by (auto intro!: fp_Fire fp_upd fp_task_cancel split: option.splits)

lemma footprint_Destroy: "footprint r w (snd (Destroy r w))"
  by (simp add: fp_Destroy)

lemma footprint_Wake:
  "th < length (threads w) \<Longrightarrow> threads w ! th = Waiting r \<Longrightarrow> footprint r w (Wake th w)"
  unfolding Wake_def Let_def
  by (auto intro!: fp_run_exit fp_run_loop fp_upd fp_Fire fp_set_thread)

lemma Wake_idle: "th < length (threads w) \<longrightarrow> (\<forall>r. threads w ! th \<noteq> Waiting r) \<Longrightarrow> Wake th w = w"
  by (auto simp add: Wake_def split: thread_state.splits)


subsection \<open>One action at a time\<close>

lemma CreateTimer_proj [simp]:
  "threads (snd (CreateTimer d w)) = threads w"
  "trace (snd (CreateTimer d w)) = trace w"
  "IsServer (snd (CreateTimer d w)) = IsServer w"
  "length (heap (snd (CreateTimer d w))) = (if IsServer w then Suc (length (heap w)) else length (heap w))"
  "Timers (snd (CreateTimer d w)) = (if IsServer w then (Timers w)(d_Name d \<mapsto> length (heap w)) else Timers w)"
  "r < length (heap w) \<Longrightarrow> get r (snd (CreateTimer d w)) = get r w"
  by (simp_all add: CreateTimer_def Let_def split_beta)

lemma Copy_proj [simp]:
  "fst (Copy r w) = length (heap w)"
  "threads (snd (Copy r w)) = threads w"
  "trace (snd (Copy r w)) = trace w"
  "IsServer (snd (Copy r w)) = IsServer w"
  "Timers (snd (Copy r w)) = Timers w"
  "length (heap (snd (Copy r w))) = Suc (length (heap w))"
  "c < length (heap w) \<Longrightarrow> get c (snd (Copy r w)) = get c w"
  by (simp_all add: Copy_def Let_def)

lemma target_Some: "target a w = Some r \<Longrightarrow> footprint r w (step a w)"
  by (cases a)
    (auto simp: footprint_Start footprint_Pause footprint_Resume footprint_Stop footprint_Destroy
      footprint_Wake split: if_splits thread_state.splits)

lemma target_None:
  "target a w = None \<Longrightarrow> \<forall>d. a \<noteq> CallCreate d \<Longrightarrow> \<forall>x. a \<noteq> CallCopy x \<Longrightarrow> step a w = w"
  by (cases a) (auto simp: Wake_def split: if_splits thread_state.splits)

lemma step_footprint:
  assumes "\<forall>d. a \<noteq> CallCreate d" "\<forall>x. a \<noteq> CallCopy x"
  shows "\<exists>r. footprint r w (step a w)"
  using assms target_Some [of a w] target_None [of a w]
  by (cases "target a w") (auto intro: exI [of _ 0])

section \<open>Leaving the Running state\<close>

text \<open>A cancelled thread stays cancelled, whatever happens next.\<close>

lemma cancelled_step:
  assumes "th < length (threads w)" "threads w ! th = Cancelled"
  shows "th < length (threads (step a w)) \<and> threads (step a w) ! th = Cancelled"
proof (cases "(\<exists>d. a = CallCreate d) \<or> (\<exists>x. a = CallCopy x)")
  case True
  then show ?thesis using assms by auto
next
  case False
  then obtain r where "footprint r w (step a w)" using step_footprint [of a w] by blast
  then have "fp_threads r w (step a w)" by (simp add: footprint_def)
  then show ?thesis using assms unfolding fp_threads_def by (meson less_le_trans)
qed

lemma cancelled_exec:
  "th < length (threads w) \<Longrightarrow> threads w ! th = Cancelled \<Longrightarrow>
   th < length (threads (exec acts w)) \<and> threads (exec acts w) ! th = Cancelled"
proof (induction acts arbitrary: w)
  case Nil
  then show ?case by simp
next
  case (Cons a acts)
  then show ?case using cancelled_step [of th w a] by simp
qed

lemma Pause_running:
  assumes "r < length (heap w)" "Status (get r w) = Running" "timerThread (get r w) = Some th"
    "th < length (threads w)" "threads w ! th = Waiting r'"
  shows "trace (Pause r w) = trace w @ [StatusChanged r Paused, TaskCancel th]"
    and "threads (Pause r w) ! th = Cancelled" and "th < length (threads (Pause r w))"
    and "timerThread (get r (Pause r w)) = None" and "Status (get r (Pause r w)) = Paused"
  using assms
  by (simp_all add: Pause_def Let_def Fire_statusChanged_def task_cancel_def)

lemma Stop_running:
  assumes "r < length (heap w)" "Status (get r w) = Running" "timerThread (get r w) = Some th"
    "th < length (threads w)" "threads w ! th = Waiting r'"
  shows "trace (Stop r w) = trace w @ [StatusChanged r Stopped, TaskCancel th]"
    and "threads (Stop r w) ! th = Cancelled" and "th < length (threads (Stop r w))"
    and "timerThread (get r (Stop r w)) = None" and "Status (get r (Stop r w)) = Stopped"
  using assms
  by (simp_all add: Stop_def Let_def Fire_statusChanged_def task_cancel_def)

text \<open>
  Claim C3 as stated fails on the scenario's running timer. \<^verbatim>\<open>Pause\<close> and \<^verbatim>\<open>Stop\<close> publish
  \<^verbatim>\<open>statusChanged\<close>, which tells the subscribers of the new state, before they call
  \<^verbatim>\<open>task.cancel\<close>. \<^verbatim>\<open>Destroy\<close> does not cancel at all: its caller is suspended at line 137, the
  status is already Stopped, the tick thread is still scheduled, and its next resumption
  publishes \<^verbatim>\<open>onTick\<close>.
\<close>

theorem leaving_Running_counterexample:
  "published started (Pause 0 started) = [StatusChanged 0 Paused, TaskCancel 0]
   \<and> published started (Stop 0 started) = [StatusChanged 0 Stopped, TaskCancel 0]
   \<and> fst (Destroy 0 started) = Suspended
   \<and> Status (get 0 (snd (Destroy 0 started))) = Stopped
   \<and> threads (snd (Destroy 0 started)) ! 0 = Waiting 0
   \<and> published (snd (Destroy 0 started)) (Wake 0 (snd (Destroy 0 started))) = [OnTick 0 (Finite 3)]"
  by (simp add: started_eq published_def) (simp add: program_defs)

text \<open>
  Claim C3, amended. \<^verbatim>\<open>Pause\<close> and \<^verbatim>\<open>Stop\<close> on a Running timer whose tick thread \<open>th\<close> is
  waiting publish \<^verbatim>\<open>statusChanged\<close> and then cancel the thread, before they return: when the
  call returns the thread is cancelled and the handle cleared, and whatever happens afterwards
  (any actions \<open>acts\<close>), resuming \<open>th\<close> does nothing, so the old loop publishes no \<^verbatim>\<open>onTick\<close>
  and no \<^verbatim>\<open>completed\<close> after the call has returned.
\<close>

theorem leaving_Running_cancels:
  assumes "r < length (heap w)" and "Status (get r w) = Running"
    and "timerThread (get r w) = Some th"
    and "th < length (threads w)" and "threads w ! th = Waiting r"
  shows "published w (Pause r w) = [StatusChanged r Paused, TaskCancel th]
       \<and> threads (Pause r w) ! th = Cancelled
       \<and> timerThread (get r (Pause r w)) = None
       \<and> Wake th (exec acts (Pause r w)) = exec acts (Pause r w)
       \<and> published w (Stop r w) = [StatusChanged r Stopped, TaskCancel th]
       \<and> threads (Stop r w) ! th = Cancelled
       \<and> timerThread (get r (Stop r w)) = None
       \<and> Wake th (exec acts (Stop r w)) = exec acts (Stop r w)"
proof -
  note P = Pause_running [OF assms] and S = Stop_running [OF assms]
  have a: "Wake th (exec acts (Pause r w)) = exec acts (Pause r w)"
    using cancelled_exec [OF P(3) P(2), of acts] by (intro Wake_idle) simp
  have b: "Wake th (exec acts (Stop r w)) = exec acts (Stop r w)"
    using cancelled_exec [OF S(3) S(2), of acts] by (intro Wake_idle) simp
  show ?thesis
    using P(2,4) S(2,4) a b published_append [OF P(1)] published_append [OF S(1)] by simp
qed


theorem leaving_Running_cancels_witness:
  "Status (get 0 started) = Running \<and> timerThread (get 0 started) = Some 0
   \<and> threads started ! 0 = Waiting 0
   \<and> published started (Pause 0 started) = [StatusChanged 0 Paused, TaskCancel 0]
   \<and> threads (Pause 0 started) ! 0 = Cancelled
   \<and> timerThread (get 0 (Pause 0 started)) = None
   \<and> Wake 0 (exec [Resumed 0, CallDestroy 0] (Pause 0 started))
       = exec [Resumed 0, CallDestroy 0] (Pause 0 started)
   \<and> published started (Stop 0 started) = [StatusChanged 0 Stopped, TaskCancel 0]
   \<and> threads (Stop 0 started) ! 0 = Cancelled
   \<and> Wake 0 (exec [Resumed 0, CallDestroy 0] (Stop 0 started))
       = exec [Resumed 0, CallDestroy 0] (Stop 0 started)"
proof -
  have g: "get 0 started =
             \<lparr> Name = ''T1'', Duration = Finite 3, Tick = Finite 1, RemainingTime = Finite 3, AutoDestroy = True,
               Status = Running, completed = True, statusChanged = True, onTick = True,
               timerThread = Some 0 \<rparr>"
    by (simp add: started_eq get_def)
  have h: "0 < length (heap started)" "Status (get 0 started) = Running"
    "timerThread (get 0 started) = Some 0" "0 < length (threads started)"
    "threads started ! 0 = Waiting 0"
    unfolding g by (simp_all add: started_eq)
  show ?thesis
    using leaving_Running_cancels [OF h, of "[Resumed 0, CallDestroy 0]"] h(2,3,5)
    unfolding g by simp
qed

section \<open>The registry over the life of a timer\<close>

lemma registry_ok_initial: "registry_ok (initial b)"
  by (simp add: registry_ok_def initial_def)

lemma footprint_Timers:
  "footprint r w w' \<Longrightarrow> Timers w' n = Timers w n \<or> Timers w' n = None"
  by (auto simp add: footprint_def fp_trace_def)

lemma CreateTimer_new [simp]:
  "IsServer w \<Longrightarrow> Name (get (length (heap w)) (snd (CreateTimer d w))) = d_Name d"
  by (simp add: CreateTimer_def Let_def split_beta)

lemma footprint_ticks:
  "footprint r w w' \<Longrightarrow> c \<noteq> r \<Longrightarrow> tick_values c (trace w') = tick_values c (trace w)"
  by (auto simp add: footprint_def fp_trace_def)

lemma registry_ok_footprint:
  assumes "footprint r w w'" "registry_ok w"
  shows "registry_ok w'"
proof -
  have h: "length (heap w') = length (heap w)" "\<And>c. Name (get c w') = Name (get c w)"
    using assms(1) unfolding footprint_def fp_heap_def by metis+
  have t: "Timers w' n = Timers w n \<or> Timers w' n = None" for n
    using footprint_Timers [OF assms(1)] .
  show ?thesis
    unfolding registry_ok_def
  proof (intro allI impI)
    fix n x assume "Timers w' n = Some x"
    then have "Timers w n = Some x" using t [of n] by auto
    then show "x < length (heap w') \<and> Name (get x w') = n"
      using assms(2) h unfolding registry_ok_def by simp
  qed
qed

lemma registry_ok_step: "registry_ok w \<Longrightarrow> registry_ok (step a w)"
proof (cases "(\<exists>d. a = CallCreate d) \<or> (\<exists>x. a = CallCopy x)")
  case True
  assume ok: "registry_ok w"
  from True show ?thesis
  proof
    assume "\<exists>d. a = CallCreate d"
    then obtain d where a: "a = CallCreate d" by blast
    show ?thesis
    proof (cases "IsServer w")
      case True
      show ?thesis
        unfolding registry_ok_def
      proof (intro allI impI)
        fix n x assume t: "Timers (step a w) n = Some x"
        show "x < length (heap (step a w)) \<and> Name (get x (step a w)) = n"
        proof (cases "n = d_Name d")
          case True
          then have x: "x = length (heap w)" using t \<open>IsServer w\<close> by (simp add: a)
          show ?thesis unfolding x using True \<open>IsServer w\<close> by (simp add: a)
        next
          case False
          then have "Timers w n = Some x" using t \<open>IsServer w\<close> by (simp add: a)
          then have "x < length (heap w) \<and> Name (get x w) = n"
            using ok unfolding registry_ok_def by blast
          then show ?thesis using \<open>IsServer w\<close> by (simp add: a)
        qed
      qed
    next
      case False
      then show ?thesis using ok by (simp add: a CreateTimer_def)
    qed
  next
    assume "\<exists>x. a = CallCopy x"
    then obtain x where a: "a = CallCopy x" by blast
    show ?thesis
    proof (cases "x < length (heap w)")
      case True
      show ?thesis
        unfolding registry_ok_def
      proof (intro allI impI)
        fix n y assume "Timers (step a w) n = Some y"
        then have "Timers w n = Some y" using True by (simp add: a)
        then have "y < length (heap w) \<and> Name (get y w) = n"
          using ok unfolding registry_ok_def by blast
        then show "y < length (heap (step a w)) \<and> Name (get y (step a w)) = n"
          using True by (simp add: a)
      qed
    next
      case False
      then show ?thesis using ok by (simp add: a)
    qed
  qed
next
  case False
  assume ok: "registry_ok w"
  from False obtain r where "footprint r w (step a w)" using step_footprint [of a w] by blast
  then show ?thesis using ok registry_ok_footprint by blast
qed

lemma registry_ok_exec: "registry_ok w \<Longrightarrow> registry_ok (exec acts w)"
  by (induction acts arbitrary: w) (simp_all add: registry_ok_step)

text \<open>One step, and then a whole run, seen from one name.\<close>

lemma name_step:
  assumes "\<forall>d. a = CallCreate d \<longrightarrow> d_Name d \<noteq> n"
  shows "\<exists>es. trace (step a w) = trace w @ es
            \<and> (Timers (step a w) n = Timers w n
               \<or> (Timers (step a w) n = None \<and> Print (destroyed_message n) \<in> set es))"
proof (cases "(\<exists>d. a = CallCreate d) \<or> (\<exists>x. a = CallCopy x)")
  case True
  then show ?thesis using assms by auto
next
  case False
  then obtain r where "footprint r w (step a w)" using step_footprint [of a w] by blast
  then show ?thesis unfolding footprint_def fp_trace_def by blast
qed

lemma name_exec:
  assumes "\<forall>d. CallCreate d \<in> set acts \<longrightarrow> d_Name d \<noteq> n"
  shows "\<exists>es. trace (exec acts w) = trace w @ es
            \<and> (Timers (exec acts w) n = Timers w n
               \<or> (Timers (exec acts w) n = None \<and> Print (destroyed_message n) \<in> set es))"
  using assms
proof (induction acts arbitrary: w)
  case Nil
  then show ?case by simp
next
  case (Cons a acts)
  have "\<forall>d. a = CallCreate d \<longrightarrow> d_Name d \<noteq> n" using Cons.prems by auto
  then obtain es where es: "trace (step a w) = trace w @ es"
    "Timers (step a w) n = Timers w n \<or> (Timers (step a w) n = None \<and> Print (destroyed_message n) \<in> set es)"
    using name_step [of a n w] by blast
  have "\<forall>d. CallCreate d \<in> set acts \<longrightarrow> d_Name d \<noteq> n" using Cons.prems by auto
  then obtain es' where es': "trace (exec acts (step a w)) = trace (step a w) @ es'"
    "Timers (exec acts (step a w)) n = Timers (step a w) n
       \<or> (Timers (exec acts (step a w)) n = None \<and> Print (destroyed_message n) \<in> set es')"
    using Cons.IH [of "step a w"] by blast
  have "trace (exec (a # acts) w) = trace w @ (es @ es')" using es(1) es'(1) by simp
  moreover have "Timers (exec (a # acts) w) n = Timers w n
       \<or> (Timers (exec (a # acts) w) n = None \<and> Print (destroyed_message n) \<in> set (es @ es'))"
    using es(2) es'(2) by auto
  ultimately show ?case by blast
qed

text \<open>A reference that is not registered stays unregistered.\<close>

lemma unregistered_step:
  assumes "r < length (heap w)" "\<forall>n. Timers w n \<noteq> Some r"
  shows "r < length (heap (step a w)) \<and> (\<forall>n. Timers (step a w) n \<noteq> Some r)"
proof (cases "(\<exists>d. a = CallCreate d) \<or> (\<exists>x. a = CallCopy x)")
  case True
  then show ?thesis using assms by (auto split: if_splits)
next
  case False
  then obtain x where f: "footprint x w (step a w)" using step_footprint [of a w] by blast
  then have "length (heap (step a w)) = length (heap w)"
    by (simp add: footprint_def fp_heap_def)
  then show ?thesis using assms footprint_Timers [OF f] by (metis option.distinct(1))
qed

lemma unregistered_exec:
  "r < length (heap w) \<Longrightarrow> \<forall>n. Timers w n \<noteq> Some r \<Longrightarrow>
   r < length (heap (exec acts w)) \<and> (\<forall>n. Timers (exec acts w) n \<noteq> Some r)"
proof (induction acts arbitrary: w)
  case Nil
  then show ?case by simp
next
  case (Cons a acts)
  then show ?case using unregistered_step [of r w a] by simp
qed

lemma Destroy_returned:
  assumes "Destroy r w = (Returned, w')" "r < length (heap w)" "registry_ok w"
  shows "Timers w' (Name (get r w)) = None" "\<forall>n. Timers w' n \<noteq> Some r" "length (heap w') = length (heap w)"
    "trace w' = trace w @ [Print (destroyed_message (Name (get r w)))]"
proof -
  have w': "Timers w' = (Timers w)(Name (get r w) := None)" "length (heap w') = length (heap w)"
    "trace w' = trace w @ [Print (destroyed_message (Name (get r w)))]"
    using assms(1,2) by (auto simp add: Destroy_def Let_def split: option.splits)
  show "Timers w' (Name (get r w)) = None" by (simp add: w')
  show "\<forall>n. Timers w' n \<noteq> Some r"
    using assms(3) unfolding registry_ok_def w' by (auto split: if_splits)
  show "length (heap w') = length (heap w)" by (rule w')
  show "trace w' = trace w @ [Print (destroyed_message (Name (get r w)))]" by (rule w')
qed

text \<open>
  Claim C7 as stated fails when a name is used twice. After two \<^verbatim>\<open>CreateTimer\<close> calls with
  the name \<^verbatim>\<open>T1\<close>, the first timer (reference 0) has not been destroyed (nothing has been
  published or printed, its channels are live), yet its name leads to the second timer. And
  when the first timer is then destroyed, the entry of the second one, which has not been
  destroyed, is removed.
\<close>

theorem registry_lifetime_counterexample:
  "Name (get 0 (exec [CallCreate T1, CallCreate T1] (initial True))) = ''T1''
   \<and> completed (get 0 (exec [CallCreate T1, CallCreate T1] (initial True)))
   \<and> trace (exec [CallCreate T1, CallCreate T1] (initial True)) = []
   \<and> Timers (exec [CallCreate T1, CallCreate T1] (initial True)) ''T1'' = Some 1
   \<and> Name (get 1 (exec [CallCreate T1, CallCreate T1, CallDestroy 0] (initial True))) = ''T1''
   \<and> completed (get 1 (exec [CallCreate T1, CallCreate T1, CallDestroy 0] (initial True)))
   \<and> Timers (exec [CallCreate T1, CallCreate T1, CallDestroy 0] (initial True)) ''T1'' = None"
  by (simp add: T1_def program_defs)

text \<open>
  Claim C7, amended. In a world whose registry is in order: (1) when \<^verbatim>\<open>CreateTimer\<close> returns
  on the server, the new timer is bound to its name; (2) a name bound to a timer stays bound
  to that timer through any run \<open>acts\<close> without a \<^verbatim>\<open>CreateTimer\<close> for the same name, unless a
  \<^verbatim>\<open>Destroy\<close> of a timer with that name has reached the removal of the entry (lines 143 and
  144, seen by its message); (3) once \<^verbatim>\<open>Destroy\<close> on a timer has returned, the timer's name
  is unbound, and no name leads to that timer after any further run \<open>acts'\<close>, creations with
  the same name included.
\<close>

theorem registry_lifetime:
  assumes "registry_ok w"
  shows "(IsServer w \<longrightarrow>
            fst (CreateTimer d w) = Inr (length (heap w))
          \<and> Timers (snd (CreateTimer d w)) (d_Name d) = Some (length (heap w)))
       \<and> (Timers w n = Some r \<and> (\<forall>d'. CallCreate d' \<in> set acts \<longrightarrow> d_Name d' \<noteq> n) \<longrightarrow>
            Timers (exec acts w) n = Some r
          \<or> Print (destroyed_message n) \<in> set (published w (exec acts w)))
       \<and> (x < length (heap w) \<and> Destroy x w = (Returned, w') \<longrightarrow>
            Timers w' (Name (get x w)) = None
          \<and> (\<forall>n'. Timers (exec acts' w') n' \<noteq> Some x))"
proof (intro conjI impI)
  assume "IsServer w"
  then show "fst (CreateTimer d w) = Inr (length (heap w))"
    and "Timers (snd (CreateTimer d w)) (d_Name d) = Some (length (heap w))"
    by (simp_all add: CreateTimer_def Let_def split_beta)
next
  assume h: "Timers w n = Some r \<and> (\<forall>d'. CallCreate d' \<in> set acts \<longrightarrow> d_Name d' \<noteq> n)"
  then obtain es where es: "trace (exec acts w) = trace w @ es"
    "Timers (exec acts w) n = Timers w n
       \<or> (Timers (exec acts w) n = None \<and> Print (destroyed_message n) \<in> set es)"
    using name_exec [of acts n w] by blast
  show "Timers (exec acts w) n = Some r
          \<or> Print (destroyed_message n) \<in> set (published w (exec acts w))"
    using es(2) h by (auto simp add: published_append [OF es(1)])
next
  assume h: "x < length (heap w) \<and> Destroy x w = (Returned, w')"
  then have d: "Destroy x w = (Returned, w')" and x: "x < length (heap w)" by simp_all
  note D = Destroy_returned [OF d x assms]
  show "Timers w' (Name (get x w)) = None" by (rule D(1))
  show "\<forall>n'. Timers (exec acts' w') n' \<noteq> Some x"
    using unregistered_exec [of x w' acts'] D(2,3) x by simp
qed


theorem registry_lifetime_witness:
  "registry_ok created \<and> IsServer created
   \<and> fst (CreateTimer T2 created) = Inr 1
   \<and> Timers (snd (CreateTimer T2 created)) ''T2'' = Some 1
   \<and> Timers created ''T1'' = Some 0
   \<and> (Timers (exec [CallStart 0, Resumed 0] created) ''T1'' = Some 0
       \<or> Print (destroyed_message ''T1'')
            \<in> set (published created (exec [CallStart 0, Resumed 0] created)))
   \<and> Destroy 0 created = (Returned, snd (Destroy 0 created))
   \<and> Timers (snd (Destroy 0 created)) ''T1'' = None
   \<and> Timers (exec [CallCreate T1] (snd (Destroy 0 created))) ''T1'' \<noteq> Some 0"
proof -
  have ok: "registry_ok created"
    using registry_ok_exec [OF registry_ok_initial, of "[CallCreate T1]" True]
    by (simp add: created_def)
  have h: "IsServer created" "Timers created ''T1'' = Some 0" "0 < length (heap created)"
    "length (heap created) = 1" "Name (get 0 created) = ''T1''" "d_Name T2 = ''T2''"
    by (simp_all add: created_eq get_def T2_def)
  have n: "\<forall>d'. CallCreate d' \<in> set [CallStart 0, Resumed 0] \<longrightarrow> d_Name d' \<noteq> ''T1''"
    by simp
  have d: "Destroy 0 created = (Returned, snd (Destroy 0 created))"
    by (simp add: created_eq program_defs)
  show ?thesis
    using registry_lifetime [OF ok, of T2 "''T1''" 0 "[CallStart 0, Resumed 0]" 0
        "snd (Destroy 0 created)" "[CallCreate T1]"] ok h n d
    by simp
qed

section \<open>Copies of a running timer\<close>

lemma threads_ok_nth:
  "threads_ok w \<longleftrightarrow>
     (\<forall>th r. th < length (threads w) \<longrightarrow> threads w ! th = Waiting r \<longrightarrow> r < length (heap w))"
proof
  assume ok: "threads_ok w"
  show "\<forall>th r. th < length (threads w) \<longrightarrow> threads w ! th = Waiting r \<longrightarrow> r < length (heap w)"
  proof (intro allI impI)
    fix th r assume "th < length (threads w)" "threads w ! th = Waiting r"
    then have "Waiting r \<in> set (threads w)" by (metis nth_mem)
    then show "r < length (heap w)" using ok unfolding threads_ok_def by force
  qed
next
  assume h: "\<forall>th r. th < length (threads w) \<longrightarrow> threads w ! th = Waiting r \<longrightarrow> r < length (heap w)"
  show "threads_ok w"
    unfolding threads_ok_def
  proof
    fix s assume "s \<in> set (threads w)"
    then obtain th where "th < length (threads w)" "threads w ! th = s"
      by (auto simp: in_set_conv_nth)
    then show "case s of Waiting r \<Rightarrow> r < length (heap w) | _ \<Rightarrow> True"
      using h by (cases s) auto
  qed
qed

lemma target_valid: "threads_ok w \<Longrightarrow> target a w = Some r \<Longrightarrow> r < length (heap w)"
  unfolding threads_ok_nth
  by (cases a) (auto split: if_splits thread_state.splits)

lemma threads_ok_step: "threads_ok w \<Longrightarrow> threads_ok (step a w)"
proof (cases "target a w")
  case None
  assume ok: "threads_ok w"
  show ?thesis
  proof (cases "(\<exists>d. a = CallCreate d) \<or> (\<exists>x. a = CallCopy x)")
    case True
    then show ?thesis using ok unfolding threads_ok_nth by (auto simp: less_Suc_eq split: if_splits)
  next
    case False
    then show ?thesis using target_None [OF None] ok by simp
  qed
next
  case (Some r)
  assume ok: "threads_ok w"
  have r: "r < length (heap w)" using target_valid [OF ok Some] .
  have f: "footprint r w (step a w)" using target_Some [OF Some] .
  then have len: "length (heap (step a w)) = length (heap w)" by (simp add: footprint_def fp_heap_def)
  have t: "\<And>t c. t < length (threads (step a w)) \<Longrightarrow> threads (step a w) ! t = Waiting c \<Longrightarrow>
          c = r \<or> (t < length (threads w) \<and> threads w ! t = Waiting c)"
    using f unfolding footprint_def fp_threads_def by blast
  show ?thesis
    unfolding threads_ok_nth len
    using t r ok [unfolded threads_ok_nth] by blast
qed

lemma threads_ok_exec: "threads_ok w \<Longrightarrow> threads_ok (exec acts w)"
  by (induction acts arbitrary: w) (simp_all add: threads_ok_step)

lemma threads_ok_initial: "threads_ok (initial b)"
  by (simp add: threads_ok_def initial_def)

lemma idle_step:
  assumes "idle c w" "a \<notin> {CallPause c, CallStop c, CallDestroy c}"
  shows "idle c (step a w) \<and> tick_values c (trace (step a w)) = tick_values c (trace w)"
proof (cases "target a w")
  case None
  show ?thesis
  proof (cases "(\<exists>d. a = CallCreate d) \<or> (\<exists>x. a = CallCopy x)")
    case True
    then show ?thesis using assms(1) unfolding idle_def by (auto simp: less_Suc_eq split: if_splits)
  next
    case False
    then show ?thesis using target_None [OF None] assms(1) by simp
  qed
next
  case (Some r)
  have c: "c < length (heap w)" "Status (get c w) = Running" "timerThread (get c w) = None"
    "Waiting c \<notin> set (threads w)"
    using assms(1) unfolding idle_def by simp_all
  show ?thesis
  proof (cases "r = c")
    case True
    have "step a w = w"
    proof (cases a)
      case (CallStart x)
      then show ?thesis using Some True c by (auto simp: Start_def split: if_splits)
    next
      case (CallResume x)
      then show ?thesis using Some True c by (auto simp: Resume_def split: if_splits)
    next
      case (Resumed th)
      then have "th < length (threads w)" "threads w ! th = Waiting c"
        using Some True by (auto split: if_splits thread_state.splits)
      then show ?thesis using c(4) by (metis nth_mem)
    qed (use Some True assms(2) in \<open>auto split: if_splits\<close>)
    then show ?thesis using assms(1) by simp
  next
    case False
    have f: "footprint r w (step a w)" using target_Some [OF Some] .
    have h: "length (heap (step a w)) = length (heap w)" "get c (step a w) = get c w"
      using f False unfolding footprint_def fp_heap_def by auto
    have t: "\<And>t. t < length (threads (step a w)) \<Longrightarrow> threads (step a w) ! t = Waiting c \<Longrightarrow>
               t < length (threads w) \<and> threads w ! t = Waiting c"
      using f False unfolding footprint_def fp_threads_def by blast
    have "Waiting c \<notin> set (threads (step a w))"
    proof
      assume "Waiting c \<in> set (threads (step a w))"
      then obtain t where "t < length (threads (step a w))" "threads (step a w) ! t = Waiting c"
        by (auto simp: in_set_conv_nth)
      then have "t < length (threads w) \<and> threads w ! t = Waiting c" using t by blast
      then show False using c(4) by (metis nth_mem)
    qed
    moreover have "tick_values c (trace (step a w)) = tick_values c (trace w)"
      using footprint_ticks [OF f] False by simp
    ultimately show ?thesis using c h unfolding idle_def by simp
  qed
qed

lemma idle_exec:
  assumes "idle c w" "\<forall>a \<in> set acts. a \<notin> {CallPause c, CallStop c, CallDestroy c}"
  shows "idle c (exec acts w) \<and> tick_values c (trace (exec acts w)) = tick_values c (trace w)"
  using assms
proof (induction acts arbitrary: w)
  case Nil
  then show ?case by simp
next
  case (Cons a acts)
  then have "idle c (step a w) \<and> tick_values c (trace (step a w)) = tick_values c (trace w)"
    using idle_step [of c w a] by simp
  then show ?case using Cons.IH [of "step a w"] Cons.prems(2) by simp
qed

text \<open>
  Claim C10 as stated fails in its last part. The copy of the scenario's running timer
  (reference 1) says Running and has no thread; neither \<^verbatim>\<open>Stop\<close> nor \<^verbatim>\<open>Pause\<close> is applied to
  it, but \<^verbatim>\<open>Destroy\<close> also sets the status to Stopped (and leaves \<^verbatim>\<open>onTick\<close> live), so a
  \<^verbatim>\<open>Start\<close> after it spawns a loop and the copy ticks.
\<close>

theorem copy_of_running_counterexample:
  "Status (get 1 (snd (Copy 0 started))) = Running
   \<and> timerThread (get 1 (snd (Copy 0 started))) = None
   \<and> Start 1 (snd (Copy 0 started)) = snd (Copy 0 started)
   \<and> tick_values 1 (trace (exec [CallCopy 0, CallDestroy 1, CallStart 1, Resumed 1] started))
       = [Finite 3]"
  by (simp add: started_eq) (simp add: program_defs)

text \<open>
  Claim C10, amended. \<^verbatim>\<open>Copy\<close> gives a new timer named after the source with \<^verbatim>\<open>_copy\<close>
  appended, with the source's status and no thread handle, and leaves the registry, the
  threads and the trace as they were. When the source is Running, \<^verbatim>\<open>Start\<close> on the copy
  changes nothing (no loop is spawned, nothing is published), and through any run \<open>acts\<close> in
  which none of \<^verbatim>\<open>Pause\<close>, \<^verbatim>\<open>Stop\<close> and \<^verbatim>\<open>Destroy\<close> is applied to the copy, the copy publishes
  no \<^verbatim>\<open>onTick\<close> and stays Running without a thread.
\<close>

theorem copy_of_running_is_inert:
  assumes "r < length (heap w)" and "threads_ok w" and "Copy r w = (c, w')"
  shows "c = length (heap w)
       \<and> Name (get c w') = Name (get r w) @ ''_copy''
       \<and> Status (get c w') = Status (get r w)
       \<and> timerThread (get c w') = None
       \<and> Timers w' = Timers w \<and> threads w' = threads w \<and> trace w' = trace w
       \<and> (Status (get r w) = Running \<longrightarrow>
            Start c w' = w'
          \<and> ((\<forall>a \<in> set acts. a \<notin> {CallPause c, CallStop c, CallDestroy c}) \<longrightarrow>
               tick_values c (trace (exec acts w')) = tick_values c (trace w')
             \<and> Status (get c (exec acts w')) = Running
             \<and> timerThread (get c (exec acts w')) = None))"
proof -
  have c: "c = length (heap w)" and w': "w' = snd (Copy r w)"
    using assms(3) by (auto simp: Copy_def Let_def new_object_def)
  have g: "get c w' = \<lparr> Name = Name (get r w) @ ''_copy'', Duration = Duration (get r w),
                         Tick = Tick (get r w), RemainingTime = RemainingTime (get r w),
                         AutoDestroy = AutoDestroy (get r w), Status = Status (get r w),
                         completed = True, statusChanged = True, onTick = True,
                         timerThread = None \<rparr>"
    unfolding c w' by (simp add: Copy_def Let_def)
  have p: "Timers w' = Timers w" "threads w' = threads w" "trace w' = trace w"
    "length (heap w') = Suc (length (heap w))"
    unfolding w' by simp_all
  have run: "Start c w' = w'
          \<and> ((\<forall>a \<in> set acts. a \<notin> {CallPause c, CallStop c, CallDestroy c}) \<longrightarrow>
               tick_values c (trace (exec acts w')) = tick_values c (trace w')
             \<and> Status (get c (exec acts w')) = Running
             \<and> timerThread (get c (exec acts w')) = None)"
    if "Status (get r w) = Running"
  proof -
    have "Waiting c \<notin> set (threads w')"
      using assms(2) unfolding threads_ok_def p c by force
    then have i: "idle c w'" unfolding idle_def g using that p(4) c by simp
    have "Start c w' = w'" using that by (simp add: Start_def g)
    then show ?thesis using idle_exec [OF i, of acts] unfolding idle_def by simp
  qed
  show ?thesis using c g p run by simp
qed


theorem copy_of_running_is_inert_witness:
  "threads_ok started \<and> Copy 0 started = (1, snd (Copy 0 started))
   \<and> Status (get 0 started) = Running
   \<and> Name (get 1 (snd (Copy 0 started))) = ''T1_copy''
   \<and> Status (get 1 (snd (Copy 0 started))) = Running
   \<and> timerThread (get 1 (snd (Copy 0 started))) = None
   \<and> Timers (snd (Copy 0 started)) = Timers started
   \<and> Start 1 (snd (Copy 0 started)) = snd (Copy 0 started)
   \<and> tick_values 1 (trace (exec [CallStart 1, Resumed 0, CallResume 1, Resumed 0, CallStart 1]
                                (snd (Copy 0 started))))
       = tick_values 1 (trace (snd (Copy 0 started)))
   \<and> Status (get 1 (exec [CallStart 1, Resumed 0, CallResume 1, Resumed 0, CallStart 1]
                       (snd (Copy 0 started)))) = Running"
proof -
  have ok: "threads_ok started"
    by (simp add: threads_ok_def started_eq)
  have h: "0 < length (heap started)" "Status (get 0 started) = Running"
    "Name (get 0 started) = ''T1''"
    by (simp_all add: started_eq get_def)
  have c: "Copy 0 started = (1, snd (Copy 0 started))"
    by (simp add: started_eq Copy_def new_object_def Let_def)
  have a: "\<forall>a \<in> set [CallStart 1, Resumed 0, CallResume 1, Resumed 0, CallStart 1].
             a \<notin> {CallPause 1, CallStop 1, CallDestroy 1}"
    by simp
  note R = copy_of_running_is_inert [OF h(1) ok c,
      of "[CallStart 1, Resumed 0, CallResume 1, Resumed 0, CallStart 1]", THEN conjunct2]
  have t: "Timers (snd (Copy 0 started)) = Timers started" using R by blast
  have "Name (get 1 (snd (Copy 0 started))) = ''T1_copy''
      \<and> Status (get 1 (snd (Copy 0 started))) = Running
      \<and> timerThread (get 1 (snd (Copy 0 started))) = None
      \<and> Start 1 (snd (Copy 0 started)) = snd (Copy 0 started)
      \<and> tick_values 1 (trace (exec [CallStart 1, Resumed 0, CallResume 1, Resumed 0, CallStart 1]
                                (snd (Copy 0 started))))
          = tick_values 1 (trace (snd (Copy 0 started)))
      \<and> Status (get 1 (exec [CallStart 1, Resumed 0, CallResume 1, Resumed 0, CallStart 1]
                       (snd (Copy 0 started)))) = Running"
    using R h(2,3) a by (simp del: exec.simps One_nat_def)
  then show ?thesis
    using ok c h(2) t by blast
qed

end
